theory Spec2Isabelle
  imports Main
begin

section \<open>The Go standard library functions the scanner calls\<close>

text \<open>
  A Go \<open>string\<close> is a sequence of bytes; it is modelled as a HOL \<open>string\<close>, a list of
  8-bit characters. The functions of packages \<open>strings\<close>, \<open>bufio\<close> and
  \<open>path/filepath\<close> that \<open>scanner/macos.go\<close> calls are written out below from the
  behaviour the Go library documents, on these byte strings.
\<close>

subsection \<open>Package strings\<close>

definition HasPrefix :: "string \<Rightarrow> string \<Rightarrow> bool" where
  "HasPrefix s prefix = (length prefix \<le> length s \<and> take (length prefix) s = prefix)"

definition TrimPrefix :: "string \<Rightarrow> string \<Rightarrow> string" where
  "TrimPrefix s prefix = (if HasPrefix s prefix then drop (length prefix) s else s)"

definition HasSuffix :: "string \<Rightarrow> string \<Rightarrow> bool" where
  "HasSuffix s suffix =
     (length suffix \<le> length s \<and> drop (length s - length suffix) s = suffix)"

definition TrimSuffix :: "string \<Rightarrow> string \<Rightarrow> string" where
  "TrimSuffix s suffix = (if HasSuffix s suffix then take (length s - length suffix) s else s)"

text \<open>\<open>strings.Index\<close>: the byte offset of the first occurrence of \<open>sep\<close>, Go's \<open>-1\<close> being \<open>None\<close>.\<close>

fun Index :: "string \<Rightarrow> string \<Rightarrow> nat option" where
  "Index [] sep = (if sep = [] then Some 0 else None)"
| "Index (c # cs) sep =
     (if HasPrefix (c # cs) sep then Some 0 else map_option Suc (Index cs sep))"

text \<open>\<open>strings.Cut\<close>: slices \<open>s\<close> around the first occurrence of \<open>sep\<close>.\<close>

definition Cut :: "string \<Rightarrow> string \<Rightarrow> string \<times> string \<times> bool" where
  "Cut s sep =
     (case Index s sep of
        Some i \<Rightarrow> (take i s, drop (i + length sep) s, True)
      | None \<Rightarrow> (s, [], False))"

text \<open>
  \<open>strings.TrimSpace\<close> removes leading and trailing white space as \<open>unicode.IsSpace\<close>
  defines it. On a byte string that is the six ASCII characters tab, line feed, vertical
  tab, form feed, carriage return and space, and the UTF-8 encodings of U+0085, U+00A0,
  U+1680, U+2000 to U+200A, U+2028, U+2029, U+202F, U+205F and U+3000. A byte sequence
  that is not the encoding of one of these decodes to another rune (or to the
  replacement rune, one byte wide) and stops the trimming.
\<close>

definition asciiSpace :: "char \<Rightarrow> bool" where
  "asciiSpace c =
     (c = CHR 0x09 \<or> c = CHR 0x0A \<or> c = CHR 0x0B \<or> c = CHR 0x0C \<or> c = CHR 0x0D \<or> c = CHR 0x20)"

definition spaceRunes :: "string list" where
  "spaceRunes =
     [[CHR 0xC2, CHR 0x85], [CHR 0xC2, CHR 0xA0], [CHR 0xE1, CHR 0x9A, CHR 0x80],
      [CHR 0xE2, CHR 0x80, CHR 0x80], [CHR 0xE2, CHR 0x80, CHR 0x81],
      [CHR 0xE2, CHR 0x80, CHR 0x82], [CHR 0xE2, CHR 0x80, CHR 0x83],
      [CHR 0xE2, CHR 0x80, CHR 0x84], [CHR 0xE2, CHR 0x80, CHR 0x85],
      [CHR 0xE2, CHR 0x80, CHR 0x86], [CHR 0xE2, CHR 0x80, CHR 0x87],
      [CHR 0xE2, CHR 0x80, CHR 0x88], [CHR 0xE2, CHR 0x80, CHR 0x89],
      [CHR 0xE2, CHR 0x80, CHR 0x8A], [CHR 0xE2, CHR 0x80, CHR 0xA8],
      [CHR 0xE2, CHR 0x80, CHR 0xA9], [CHR 0xE2, CHR 0x80, CHR 0xAF],
      [CHR 0xE2, CHR 0x81, CHR 0x9F], [CHR 0xE3, CHR 0x80, CHR 0x80]]"

text \<open>The width in bytes of the white-space rune \<open>s\<close> starts with (ends with); 0 when there is none.\<close>

definition leadingSpace :: "string \<Rightarrow> nat" where
  "leadingSpace s =
     (case s of
        [] \<Rightarrow> 0
      | c # cs \<Rightarrow>
          if asciiSpace c then 1
          else (case find (HasPrefix s) spaceRunes of Some r \<Rightarrow> length r | None \<Rightarrow> 0))"

definition trailingSpace :: "string \<Rightarrow> nat" where
  "trailingSpace s =
     (if s = [] then 0
      else if asciiSpace (last s) then 1
      else (case find (HasSuffix s) spaceRunes of Some r \<Rightarrow> length r | None \<Rightarrow> 0))"

function TrimLeftSpace :: "string \<Rightarrow> string" where
  "TrimLeftSpace s = (if leadingSpace s = 0 then s else TrimLeftSpace (drop (leadingSpace s) s))"
  by pat_completeness auto
termination
proof (relation "measure length")
  fix s :: string
  assume "leadingSpace s \<noteq> 0"
  moreover have "leadingSpace s \<le> length s"
    by (auto simp: leadingSpace_def HasPrefix_def find_Some_iff split: list.splits option.splits)
  ultimately show "(drop (leadingSpace s) s, s) \<in> measure length" by simp
qed simp

function TrimRightSpace :: "string \<Rightarrow> string" where
  "TrimRightSpace s =
     (if trailingSpace s = 0 then s
      else TrimRightSpace (take (length s - trailingSpace s) s))"
  by pat_completeness auto
termination
proof (relation "measure length")
  fix s :: string
  assume "trailingSpace s \<noteq> 0"
  moreover have "trailingSpace s \<le> length s"
    by (cases s) (auto simp: trailingSpace_def HasSuffix_def find_Some_iff split: option.splits)
  ultimately show "(take (length s - trailingSpace s) s, s) \<in> measure length" by simp
qed simp

definition TrimSpace :: "string \<Rightarrow> string" where
  "TrimSpace s = TrimRightSpace (TrimLeftSpace s)"

subsection \<open>Package path/filepath\<close>

text \<open>
  \<open>filepath.Base\<close> with the separator \<open>/\<close> (the scanner's Unix build; there is no volume
  name): the last element of the path, after trailing separators are removed;
  \<open>.\<close> for the empty path and \<open>/\<close> for a path of separators only.
\<close>

definition Base :: "string \<Rightarrow> string" where
  "Base path =
     (if path = [] then ''.''
      else
        let stripped = rev (dropWhile (\<lambda>c. c = CHR ''/'') (rev path));
            element = rev (takeWhile (\<lambda>c. c \<noteq> CHR ''/'') (rev stripped))
        in if element = [] then ''/'' else element)"

subsection \<open>Package bufio: a Scanner over a string, split by ScanLines\<close>

text \<open>
  \<open>ScanLines\<close> ends a line at each line feed; text after the last line feed is a final
  line when it is not empty. \<open>rawLines\<close> gives the lines before their trailing carriage
  return is dropped.
\<close>

fun rawLines :: "string \<Rightarrow> string list" where
  "rawLines [] = []"
| "rawLines (c # cs) =
     (if c = CHR 0x0A then [] # rawLines cs
      else (case rawLines cs of [] \<Rightarrow> [[c]] | l # ls \<Rightarrow> (c # l) # ls))"

definition dropCR :: "string \<Rightarrow> string" where
  "dropCR data = (if data \<noteq> [] \<and> last data = CHR 0x0D then butlast data else data)"

text \<open>
  The Scanner's buffer grows to \<open>MaxScanTokenSize\<close> bytes and no further: a line that
  does not end within that many bytes stops the scan, and \<open>Err\<close> then returns
  \<open>bufio.ErrTooLong\<close>. A \<open>strings.Reader\<close> has no other failure. \<open>scanLines\<close> gives the
  tokens that the successive calls of \<open>Scan\<close> deliver, and what \<open>Err\<close> returns after them.
\<close>

datatype scanError = ErrTooLong

definition MaxScanTokenSize :: nat where
  "MaxScanTokenSize = 64 * 1024"

fun scanTokens :: "string list \<Rightarrow> string list \<times> scanError option" where
  "scanTokens [] = ([], None)"
| "scanTokens (l # ls) =
     (if MaxScanTokenSize \<le> length l then ([], Some ErrTooLong)
      else (case scanTokens ls of (ts, e) \<Rightarrow> (dropCR l # ts, e)))"

definition scanLines :: "string \<Rightarrow> string list \<times> scanError option" where
  "scanLines stdout = scanTokens (rawLines stdout)"

section \<open>The scanner: \<open>scanner/macos.go\<close>\<close>

subsection \<open>Errors\<close>

text \<open>
  Every error return of \<open>parseSWVers\<close> and \<open>parseInstalledPackages\<close> is a constructor;
  \<open>errorMessage\<close> is the text \<open>xerrors.Errorf\<close> formats for it.
\<close>

datatype error =
    ScanFailed scanError
  | UnexpectedProductName string
  | EmptyProductVersion
  | UnexpectedLine string
  | UnexpectedTag string

fun errorMessage :: "error \<Rightarrow> string" where
  "errorMessage (ScanFailed ErrTooLong) =
     ''Failed to scan by the scanner. err: bufio.Scanner: token too long''"
| "errorMessage (UnexpectedProductName name) =
     ''Failed to detect MacOS Family. err: '' @ [CHR 0x22] @ name @ [CHR 0x22] @
     '' is unexpected product name''"
| "errorMessage EmptyProductVersion =
     ''Failed to get ProductVersion string. err: ProductVersion is empty''"
| "errorMessage (UnexpectedLine t) =
     ''unexpected installed packages line. expected: '' @ [CHR 0x22] @ ''<TAG>: <VALUE>'' @
     [CHR 0x22] @ '', actual: '' @ [CHR 0x22] @ t @ [CHR 0x22]"
| "errorMessage (UnexpectedTag lhs) =
     ''unexpected installed packages line tag. expected: ['' @ [CHR 0x22] @ ''Info.plist'' @
     [CHR 0x22] @ '', '' @ [CHR 0x22] @ ''CFBundleShortVersionString'' @ [CHR 0x22] @
     ''], actual: '' @ [CHR 0x22] @ lhs @ [CHR 0x22]"

subsection \<open>parseSWVers\<close>

text \<open>
  Modelled from the spec: the four family constants \<open>constant.MacOSX\<close>,
  \<open>constant.MacOSXServer\<close>, \<open>constant.MacOS\<close> and \<open>constant.MacOSServer\<close> are declared in
  package \<open>constant\<close>, which is not among the source files. The spec gives the family as
  an enumeration of four values (ClassicMacOS, ClassicMacOSServer, ModernMacOS,
  ModernMacOSServer, in this order); the constructors keep the names the code uses.
\<close>

datatype family = MacOSX | MacOSXServer | MacOS | MacOSServer

text \<open>The body of the scan loop: the \<open>switch\<close> on the prefix of the line \<open>t\<close>, on \<open>(name, version)\<close>.\<close>

fun swVersLine :: "string \<times> string \<Rightarrow> string \<Rightarrow> string \<times> string" where
  "swVersLine (name, version) t =
     (if HasPrefix t ''ProductName:'' then (TrimSpace (TrimPrefix t ''ProductName:''), version)
      else if HasPrefix t ''ProductVersion:''
        then (name, TrimSpace (TrimPrefix t ''ProductVersion:''))
      else (name, version))"

text \<open>The \<open>switch name\<close> after the loop; \<open>None\<close> is its \<open>default\<close> branch.\<close>

definition familyOf :: "string \<Rightarrow> family option" where
  "familyOf name =
     (if name = ''Mac OS X'' then Some MacOSX
      else if name = ''Mac OS X Server'' then Some MacOSXServer
      else if name = ''macOS'' then Some MacOS
      else if name = ''macOS Server'' then Some MacOSServer
      else None)"

definition parseSWVers :: "string \<Rightarrow> error + family \<times> string" where
  "parseSWVers stdout =
     (case scanLines stdout of
        (tokens, err) \<Rightarrow>
          (case foldl swVersLine ([], []) tokens of
             (name, version) \<Rightarrow>
               (case err of
                  Some e \<Rightarrow> Inl (ScanFailed e)
                | None \<Rightarrow>
                    (case familyOf name of
                       None \<Rightarrow> Inl (UnexpectedProductName name)
                     | Some family \<Rightarrow>
                         if version = [] then Inl EmptyProductVersion
                         else Inr (family, version)))))"

text \<open>
  The spec's words for what the scan keeps (section 4.1: the last-seen value for each
  relevant key, values trimmed of white space): \<open>lastValue key ts\<close> is the trimmed text
  after \<open>key\<close> on the last of the lines \<open>ts\<close> that starts with \<open>key\<close>, and the empty string
  when no line does. It is compared with the loop of \<open>parseSWVers\<close> below.
\<close>

definition lastValue :: "string \<Rightarrow> string list \<Rightarrow> string" where
  "lastValue key ts =
     (case filter (\<lambda>t. HasPrefix t key) ts of
        [] \<Rightarrow> []
      | t # us \<Rightarrow> TrimSpace (TrimPrefix (last (t # us)) key))"

subsection \<open>parseInstalledPackages\<close>

text \<open>
  \<open>models.Package\<close> with the two fields the scanner sets (every other field keeps its zero
  value); \<open>models.Packages\<close> is a Go map from the package name to the package.
\<close>

record Package =
  Name :: string
  Version :: string

type_synonym Packages = "string \<rightharpoonup> Package"

text \<open>
  The second result, a \<open>models.SrcPackages\<close>, is always Go's \<open>nil\<close> map; no entry of it is
  ever built, so the model keeps only its keys and values as strings, with \<open>None\<close> for
  \<open>nil\<close>.
\<close>

type_synonym SrcPackages = "(string \<rightharpoonup> string) option"

text \<open>
  The block \<open>if p != "" { ... }\<close>, which the source has twice (at a blank line and after the
  loop): it stores the package under the name derived from the pending path.
\<close>

definition packageName :: "string \<Rightarrow> string" where
  "packageName p = Base (TrimSuffix p ''.app/Contents/Info.plist'')"

definition addPending :: "Packages \<Rightarrow> string \<Rightarrow> string \<Rightarrow> Packages" where
  "addPending pkgs p v =
     (if p \<noteq> [] then pkgs(packageName p \<mapsto> \<lparr>Name = packageName p, Version = v\<rparr>) else pkgs)"

text \<open>The body of the scan loop on the state \<open>(pkgs, p, v)\<close>; \<open>Inl\<close> is a \<open>return\<close> with an error.\<close>

fun pkgLine :: "Packages \<times> string \<times> string \<Rightarrow> string \<Rightarrow> error + Packages \<times> string \<times> string" where
  "pkgLine (pkgs, p, v) t =
     (if t = [] then Inr (addPending pkgs p v, [], [])
      else
        (case Cut t '':'' of
           (lhs, rhs, ok) \<Rightarrow>
             if \<not> ok then Inl (UnexpectedLine t)
             else if lhs = ''Info.plist'' then Inr (pkgs, TrimSpace rhs, v)
             else if lhs = ''CFBundleShortVersionString'' then
               Inr (pkgs, p,
                 if HasSuffix (TrimSpace rhs)
                      ''error: No value at that key path or invalid key path: CFBundleShortVersionString''
                 then [] else TrimSpace rhs)
             else Inl (UnexpectedTag lhs)))"

fun pkgLoop :: "Packages \<times> string \<times> string \<Rightarrow> string list \<Rightarrow> error + Packages \<times> string \<times> string" where
  "pkgLoop s [] = Inr s"
| "pkgLoop s (t # ts) = (case pkgLine s t of Inl e \<Rightarrow> Inl e | Inr s' \<Rightarrow> pkgLoop s' ts)"

definition parseInstalledPackages :: "string \<Rightarrow> error + Packages \<times> SrcPackages" where
  "parseInstalledPackages stdout =
     (case scanLines stdout of
        (tokens, err) \<Rightarrow>
          (case pkgLoop (Map.empty, [], []) tokens of
             Inl e \<Rightarrow> Inl e
           | Inr (pkgs, p, v) \<Rightarrow>
               (let pkgs' = addPending pkgs p v
                in case err of
                     Some e \<Rightarrow> Inl (ScanFailed e)
                   | None \<Rightarrow> Inr (pkgs', None))))"

subsection \<open>The records of an inventory text\<close>

text \<open>
  The record view of the loop of \<open>parseInstalledPackages\<close>, which the loop is compared
  with below. A line is well formed when it is blank or carries one of the two tags before
  its first colon; the blocks of a text are its runs of lines between blank lines; the
  path and the version of a block are the trimmed values of its last \<open>Info.plist\<close> line and
  of its last \<open>CFBundleShortVersionString\<close> line (the empty string without such a line, and
  for a version that ends with the suffix the loop tests); a block with a path is
  inserted under its derived name, block after block.
\<close>

definition lineTag :: "string \<Rightarrow> string" where
  "lineTag t = fst (Cut t '':'')"

definition lineValue :: "string \<Rightarrow> string" where
  "lineValue t = TrimSpace (fst (snd (Cut t '':'')))"

definition wellFormedLine :: "string \<Rightarrow> bool" where
  "wellFormedLine t =
     (t = [] \<or>
      snd (snd (Cut t '':'')) \<and>
      (lineTag t = ''Info.plist'' \<or> lineTag t = ''CFBundleShortVersionString''))"

fun blocks :: "string list \<Rightarrow> string list list" where
  "blocks [] = [[]]"
| "blocks (t # ts) =
     (if t = [] then [] # blocks ts
      else (case blocks ts of [] \<Rightarrow> [[t]] | b # bs \<Rightarrow> (t # b) # bs))"

definition pathLines :: "string list \<Rightarrow> string list" where
  "pathLines b = filter (\<lambda>t. lineTag t = ''Info.plist'') b"

definition versionLines :: "string list \<Rightarrow> string list" where
  "versionLines b = filter (\<lambda>t. lineTag t = ''CFBundleShortVersionString'') b"

definition blockPath :: "string list \<Rightarrow> string" where
  "blockPath b = (if pathLines b = [] then [] else lineValue (last (pathLines b)))"

definition blockVersion :: "string list \<Rightarrow> string" where
  "blockVersion b =
     (if versionLines b = [] then []
      else if HasSuffix (lineValue (last (versionLines b)))
                ''error: No value at that key path or invalid key path: CFBundleShortVersionString''
      then []
      else lineValue (last (versionLines b)))"

definition insertBlock :: "Packages \<Rightarrow> string list \<Rightarrow> Packages" where
  "insertBlock pkgs b =
     (if blockPath b = [] then pkgs
      else pkgs(packageName (blockPath b) \<mapsto>
             \<lparr>Name = packageName (blockPath b), Version = blockVersion b\<rparr>))"

definition blockInventory :: "string list \<Rightarrow> Packages" where
  "blockInventory ts = foldl insertBlock Map.empty (blocks ts)"

section \<open>Facts about the library functions\<close>

lemma Index_colon:
  "Index t '':'' =
     (if CHR '':'' \<in> set t then Some (length (takeWhile (\<lambda>c. c \<noteq> CHR '':'') t)) else None)"
  by (induction t) (auto simp: HasPrefix_def)

lemma Cut_colon:
  "Cut t '':'' =
     (if CHR '':'' \<in> set t
      then (takeWhile (\<lambda>c. c \<noteq> CHR '':'') t, tl (dropWhile (\<lambda>c. c \<noteq> CHR '':'') t), True)
      else (t, [], False))"
  by (simp add: Cut_def Index_colon dropWhile_eq_drop drop_Suc tl_drop takeWhile_eq_take [symmetric])

lemma Cut_first_colon:
  assumes "CHR '':'' \<notin> set lhs"
  shows "Cut (lhs @ '':'' @ rhs) '':'' = (lhs, rhs, True)"
  using assms by (simp add: Cut_colon takeWhile_append dropWhile_append)

lemma Base_not_empty: "Base path \<noteq> []"
  by (simp add: Base_def Let_def)

lemma HasSuffix_iff: "HasSuffix s suffix \<longleftrightarrow> (\<exists>xs. s = xs @ suffix)"
proof
  assume "HasSuffix s suffix"
  then have "s = take (length s - length suffix) s @ suffix"
    by (metis HasSuffix_def append_take_drop_id)
  then show "\<exists>xs. s = xs @ suffix" ..
next
  assume "\<exists>xs. s = xs @ suffix"
  then show "HasSuffix s suffix" by (auto simp: HasSuffix_def)
qed

lemma HasSuffix_longer: "HasSuffix s (a @ b) \<Longrightarrow> HasSuffix s b"
  by (metis HasSuffix_iff append.assoc)

lemma TrimSuffix_append: "TrimSuffix (xs @ suffix) suffix = xs"
  by (simp add: TrimSuffix_def HasSuffix_def)

lemmas evaluate =
  scanLines_def MaxScanTokenSize_def dropCR_def HasPrefix_def TrimPrefix_def HasSuffix_def
  TrimSuffix_def TrimSpace_def leadingSpace_def trailingSpace_def asciiSpace_def spaceRunes_def
  Cut_def Base_def packageName_def addPending_def familyOf_def

lemma scanTokens_ok:
  "(\<forall>l\<in>set ls. length l < MaxScanTokenSize) \<Longrightarrow> scanTokens ls = (map dropCR ls, None)"
  by (induction ls) auto

lemma pkgLoop_blank:
  "\<forall>t\<in>set ts. t = [] \<Longrightarrow> pkgLoop (pkgs, [], []) ts = Inr (pkgs, [], [])"
  by (induction ts) (auto simp: addPending_def)

section \<open>Facts about the scan loop of \<open>parseInstalledPackages\<close>\<close>

lemma Base_final_element:
  assumes "CHR ''/'' \<notin> set nm" and "nm \<noteq> []" and "pre = [] \<or> last pre = CHR ''/''"
  shows "Base (pre @ nm) = nm"
proof -
  have l: "hd (rev nm) \<noteq> CHR ''/''" using assms(1,2) by (metis hd_rev last_in_set)
  have d: "dropWhile (\<lambda>c. c = CHR ''/'') (rev nm @ rev pre) = rev nm @ rev pre"
    using assms(2) l by (cases "rev nm") auto
  have t: "takeWhile (\<lambda>c. c \<noteq> CHR ''/'') (rev pre) = []"
    using assms(3) by (cases "rev pre") (auto simp: hd_rev [symmetric])
  have "takeWhile (\<lambda>c. c \<noteq> CHR ''/'') (rev nm @ rev pre) = rev nm"
    using assms(1) t by (simp add: takeWhile_append)
  then show ?thesis using assms(2) d
    by (simp add: Base_def Let_def)
qed

lemma pkgLine_tagged:
  assumes "Cut t '':'' = (lhs, rhs, True)"
  shows "pkgLine (pkgs, p, v) t =
     (if lhs = ''Info.plist'' then Inr (pkgs, TrimSpace rhs, v)
      else if lhs = ''CFBundleShortVersionString'' then
        Inr (pkgs, p,
          if HasSuffix (TrimSpace rhs)
               ''error: No value at that key path or invalid key path: CFBundleShortVersionString''
          then [] else TrimSpace rhs)
      else Inl (UnexpectedTag lhs))"
proof -
  have "t \<noteq> []" using assms by (auto simp: Cut_def)
  then show ?thesis using assms by simp
qed

lemma pkgLoop_append:
  "pkgLoop s (xs @ ys) = (case pkgLoop s xs of Inl e \<Rightarrow> Inl e | Inr s' \<Rightarrow> pkgLoop s' ys)"
  by (induction xs arbitrary: s) (auto split: sum.splits)

lemma parse_from_loop:
  assumes "scanLines stdout = (ts, None)" and "pkgLoop (Map.empty, [], []) ts = Inr (pkgs, p, v)"
  shows "parseInstalledPackages stdout = Inr (addPending pkgs p v, None)"
  using assms by (simp add: parseInstalledPackages_def)

lemma rawLines_eq_Nil: "rawLines s = [] \<longleftrightarrow> s = []"
  by (cases s) (auto split: list.splits)

lemma rawLines_snoc_newline:
  "rawLines (s @ [CHR 0x0A]) =
     (if s = [] \<or> last s = CHR 0x0A then rawLines s @ [[]] else rawLines s)"
proof (induction s)
  case Nil
  then show ?case by simp
next
  case (Cons c cs)
  show ?case
  proof (cases "cs = []")
    case True
    then show ?thesis by simp
  next
    case False
    then have "rawLines cs \<noteq> []" by (simp add: rawLines_eq_Nil)
    then show ?thesis using Cons False by (auto split: list.splits)
  qed
qed

lemma rawLines_blank_line:
  "rawLines (s @ (if s = [] \<or> last s = CHR 0x0A then [CHR 0x0A] else [CHR 0x0A, CHR 0x0A])) =
     rawLines s @ [[]]"
proof (cases "s = [] \<or> last s = CHR 0x0A")
  case True
  then show ?thesis by (simp add: rawLines_snoc_newline)
next
  case False
  have "rawLines ((s @ [CHR 0x0A]) @ [CHR 0x0A]) = rawLines (s @ [CHR 0x0A]) @ [[]]"
    by (subst rawLines_snoc_newline) simp
  then show ?thesis using False by (simp add: rawLines_snoc_newline)
qed

lemma scanTokens_snoc_blank:
  "scanTokens (ls @ [[]]) =
     (case scanTokens ls of (ts, None) \<Rightarrow> (ts @ [[]], None) | (ts, Some e) \<Rightarrow> (ts, Some e))"
  by (induction ls) (auto simp: MaxScanTokenSize_def dropCR_def split: prod.splits option.splits)

lemma addPending_cleared: "addPending pkgs [] v = pkgs"
  by (simp add: addPending_def)

lemma parse_blank_line_appended:
  "parseInstalledPackages
     (stdout @ (if stdout = [] \<or> last stdout = CHR 0x0A then [CHR 0x0A] else [CHR 0x0A, CHR 0x0A])) =
   parseInstalledPackages stdout"
proof -
  obtain ts err where s: "scanTokens (rawLines stdout) = (ts, err)" by fastforce
  show ?thesis
  proof (cases err)
    case None
    then show ?thesis
      unfolding parseInstalledPackages_def scanLines_def rawLines_blank_line scanTokens_snoc_blank
      using s
      by (auto simp: pkgLoop_append addPending_cleared split: sum.splits)
  next
    case (Some e)
    then show ?thesis
      unfolding parseInstalledPackages_def scanLines_def rawLines_blank_line scanTokens_snoc_blank
      using s by simp
  qed
qed

section \<open>Facts about the scanner and the loop of \<open>parseSWVers\<close>\<close>

lemma scanTokens_eq:
  "scanTokens ls =
     (map dropCR (takeWhile (\<lambda>l. length l < MaxScanTokenSize) ls),
      if \<forall>l\<in>set ls. length l < MaxScanTokenSize then None else Some ErrTooLong)"
  by (induction ls) (auto simp: not_le not_less)

lemma scanLines_ok_iff:
  "scanLines stdout = (ts, None) \<longleftrightarrow>
     (\<forall>l\<in>set (rawLines stdout). length l < MaxScanTokenSize) \<and> ts = map dropCR (rawLines stdout)"
proof (cases "\<forall>l\<in>set (rawLines stdout). length l < MaxScanTokenSize")
  case True
  then have "scanLines stdout = (map dropCR (rawLines stdout), None)"
    unfolding scanLines_def by (rule scanTokens_ok)
  then show ?thesis using True by auto
next
  case False
  then have "snd (scanLines stdout) = Some ErrTooLong"
    by (simp add: scanLines_def scanTokens_eq)
  then show ?thesis using False by auto
qed

lemma HasPrefix_iff: "HasPrefix s prefix \<longleftrightarrow> (\<exists>r. s = prefix @ r)"
proof
  assume "HasPrefix s prefix"
  then have "s = prefix @ drop (length prefix) s"
    by (metis HasPrefix_def append_take_drop_id)
  then show "\<exists>r. s = prefix @ r" ..
next
  assume "\<exists>r. s = prefix @ r"
  then show "HasPrefix s prefix" by (auto simp: HasPrefix_def)
qed

lemma prefixes_exclusive:
  "HasPrefix t ''ProductName:'' \<Longrightarrow> \<not> HasPrefix t ''ProductVersion:''"
  by (auto simp: HasPrefix_iff)

lemma lastValue_snoc:
  "lastValue key (ts @ [t]) =
     (if HasPrefix t key then TrimSpace (TrimPrefix t key) else lastValue key ts)"
  by (cases "filter (\<lambda>t. HasPrefix t key) ts") (simp_all add: lastValue_def)

lemma swVers_loop:
  "foldl swVersLine ([], []) ts = (lastValue ''ProductName:'' ts, lastValue ''ProductVersion:'' ts)"
proof (induction ts rule: rev_induct)
  case Nil
  show ?case by (simp add: lastValue_def)
next
  case (snoc t ts)
  show ?case
    using snoc prefixes_exclusive [of t] by (auto simp: lastValue_snoc)
qed

lemma parseSWVers_scanned:
  assumes "scanLines stdout = (ts, None)"
  shows "parseSWVers stdout =
     (case familyOf (lastValue ''ProductName:'' ts) of
        None \<Rightarrow> Inl (UnexpectedProductName (lastValue ''ProductName:'' ts))
      | Some family \<Rightarrow>
          if lastValue ''ProductVersion:'' ts = [] then Inl EmptyProductVersion
          else Inr (family, lastValue ''ProductVersion:'' ts))"
  using assms by (simp add: parseSWVers_def swVers_loop)

lemma parseSWVers_scan_failed:
  assumes "scanLines stdout = (ts, Some e)"
  shows "parseSWVers stdout = Inl (ScanFailed e)"
  using assms by (simp add: parseSWVers_def split: prod.splits)

lemma rawLines_replicate:
  "0 < n \<Longrightarrow> c \<noteq> CHR 0x0A \<Longrightarrow> rawLines (replicate n c) = [replicate n c]"
proof (induction n)
  case 0
  then show ?case by simp
next
  case (Suc n)
  then show ?case by (cases n) auto
qed

lemma HasPrefix_replicate: "c \<noteq> k \<Longrightarrow> HasPrefix (replicate n c) (k # ks) = False"
  by (cases n) (auto simp: HasPrefix_def)

lemma dropCR_replicate: "c \<noteq> CHR 0x0D \<Longrightarrow> dropCR (replicate n c) = replicate n c"
  by (cases n) (auto simp: dropCR_def)

section \<open>The loop of \<open>parseInstalledPackages\<close> and the blocks of the text\<close>

lemma blocks_not_Nil: "blocks ts \<noteq> []"
  by (cases ts) (auto split: list.splits)

lemma blocks_line: "t \<noteq> [] \<Longrightarrow> blocks (t # ts) = (t # hd (blocks ts)) # tl (blocks ts)"
  using blocks_not_Nil [of ts] by (cases "blocks ts") auto

lemma insertBlock_addPending: "insertBlock pkgs b = addPending pkgs (blockPath b) (blockVersion b)"
  by (simp add: insertBlock_def addPending_def)

lemma wellFormedLine_cases:
  assumes "wellFormedLine t" and "t \<noteq> []"
  obtains rhs where "Cut t '':'' = (''Info.plist'', rhs, True)"
      and "lineTag t = ''Info.plist''" and "lineValue t = TrimSpace rhs"
    | rhs where "Cut t '':'' = (''CFBundleShortVersionString'', rhs, True)"
      and "lineTag t = ''CFBundleShortVersionString''" and "lineValue t = TrimSpace rhs"
proof -
  obtain lhs rhs ok where c: "Cut t '':'' = (lhs, rhs, ok)" by (cases "Cut t '':''") auto
  with assms have "ok" and "lhs = ''Info.plist'' \<or> lhs = ''CFBundleShortVersionString''"
    by (auto simp: wellFormedLine_def lineTag_def)
  then show ?thesis using c that by (auto simp: lineTag_def lineValue_def)
qed

lemma pkgLoop_blocks:
  assumes "\<forall>t\<in>set ts. wellFormedLine t"
  shows "\<exists>m' p' v'. pkgLoop (m, p, v) ts = Inr (m', p', v') \<and>
           addPending m' p' v' =
             foldl insertBlock
               (addPending m
                  (if pathLines (hd (blocks ts)) = [] then p else blockPath (hd (blocks ts)))
                  (if versionLines (hd (blocks ts)) = [] then v else blockVersion (hd (blocks ts))))
               (tl (blocks ts))"
  using assms
proof (induction ts arbitrary: m p v)
  case Nil
  show ?case by (simp add: pathLines_def versionLines_def)
next
  case (Cons t ts)
  then have wf: "wellFormedLine t" and rest: "\<forall>u\<in>set ts. wellFormedLine u" by simp_all
  show ?case
  proof (cases "t = []")
    case True
    obtain b bs where bl: "blocks ts = b # bs"
      using blocks_not_Nil [of ts] by (cases "blocks ts") auto
    have e1: "(if pathLines (hd (blocks ts)) = [] then [] else blockPath (hd (blocks ts))) =
        blockPath (hd (blocks ts))"
      by (simp add: blockPath_def)
    have e2: "(if versionLines (hd (blocks ts)) = [] then [] else blockVersion (hd (blocks ts))) =
        blockVersion (hd (blocks ts))"
      by (simp add: blockVersion_def)
    have "pathLines [] = []" and "versionLines [] = []"
      by (simp_all add: pathLines_def versionLines_def)
    with Cons.IH [OF rest, of "addPending m p v" "[]" "[]", unfolded e1 e2]
    show ?thesis using True bl
      by (simp add: insertBlock_addPending)
  next
    case False
    note bl = blocks_line [OF False, of ts]
    from wf False show ?thesis
    proof (cases rule: wellFormedLine_cases)
      case (1 rhs)
      have step: "pkgLine (m, p, v) t = Inr (m, TrimSpace rhs, v)"
        using pkgLine_tagged [OF 1(1)] by simp
      have pl: "pathLines (t # hd (blocks ts)) = t # pathLines (hd (blocks ts))"
        using 1(2) by (simp add: pathLines_def)
      have vl: "versionLines (t # hd (blocks ts)) = versionLines (hd (blocks ts))"
        using 1(2) by (simp add: versionLines_def)
      have bp: "blockPath (t # hd (blocks ts)) =
          (if pathLines (hd (blocks ts)) = [] then TrimSpace rhs else blockPath (hd (blocks ts)))"
        using 1(3) by (simp add: blockPath_def pl)
      have bv: "blockVersion (t # hd (blocks ts)) = blockVersion (hd (blocks ts))"
        by (simp add: blockVersion_def vl)
      from Cons.IH [OF rest, of m "TrimSpace rhs" v]
      show ?thesis using step
        by (auto simp add: bl pl vl bp bv simp del: blocks.simps pkgLine.simps split: if_splits)
    next
      case (2 rhs)
      let ?v = "if HasSuffix (TrimSpace rhs)
            ''error: No value at that key path or invalid key path: CFBundleShortVersionString''
          then [] else TrimSpace rhs"
      have step: "pkgLine (m, p, v) t = Inr (m, p, ?v)"
        using pkgLine_tagged [OF 2(1)] by simp
      have pl: "pathLines (t # hd (blocks ts)) = pathLines (hd (blocks ts))"
        using 2(2) by (simp add: pathLines_def)
      have vl: "versionLines (t # hd (blocks ts)) = t # versionLines (hd (blocks ts))"
        using 2(2) by (simp add: versionLines_def)
      have bp: "blockPath (t # hd (blocks ts)) = blockPath (hd (blocks ts))"
        by (simp add: blockPath_def pl)
      have bv: "blockVersion (t # hd (blocks ts)) =
          (if versionLines (hd (blocks ts)) = [] then ?v else blockVersion (hd (blocks ts)))"
        using 2(3) by (simp add: blockVersion_def vl)
      from Cons.IH [OF rest, of m p ?v]
      show ?thesis using step
        by (auto simp add: bl pl vl bp bv simp del: blocks.simps pkgLine.simps split: if_splits)
    qed
  qed
qed

lemma pkgLoop_blockInventory:
  assumes "\<forall>t\<in>set ts. wellFormedLine t"
  shows "\<exists>m p v. pkgLoop (Map.empty, [], []) ts = Inr (m, p, v) \<and>
           addPending m p v = blockInventory ts"
proof -
  obtain b bs where bl: "blocks ts = b # bs"
    using blocks_not_Nil [of ts] by (cases "blocks ts") auto
  have e1: "(if pathLines (hd (blocks ts)) = [] then [] else blockPath (hd (blocks ts))) =
      blockPath (hd (blocks ts))"
    by (simp add: blockPath_def)
  have e2: "(if versionLines (hd (blocks ts)) = [] then [] else blockVersion (hd (blocks ts))) =
      blockVersion (hd (blocks ts))"
    by (simp add: blockVersion_def)
  from pkgLoop_blocks [OF assms, of Map.empty "[]" "[]", unfolded e1 e2] show ?thesis
    by (simp add: blockInventory_def bl insertBlock_addPending)
qed

lemma foldl_insertBlock_lookup:
  "foldl insertBlock m bs n =
     (if filter (\<lambda>b. blockPath b \<noteq> [] \<and> packageName (blockPath b) = n) bs = [] then m n
      else Some \<lparr>Name = n,
             Version = blockVersion
               (last (filter (\<lambda>b. blockPath b \<noteq> [] \<and> packageName (blockPath b) = n) bs))\<rparr>)"
  by (induction bs rule: rev_induct) (auto simp: insertBlock_def)

lemma parse_loop_failed:
  assumes "scanLines stdout = (ts, err)" and "pkgLoop (Map.empty, [], []) ts = Inl e"
  shows "parseInstalledPackages stdout = Inl e"
  using assms by (simp add: parseInstalledPackages_def)

lemma parse_scan_failed:
  assumes "scanLines stdout = (ts, Some e)" and "\<forall>t\<in>set ts. wellFormedLine t"
  shows "parseInstalledPackages stdout = Inl (ScanFailed e)"
proof -
  from pkgLoop_blockInventory [OF assms(2)]
  obtain m p v where "pkgLoop (Map.empty, [], []) ts = Inr (m, p, v)" by blast
  then show ?thesis using assms(1) by (simp add: parseInstalledPackages_def)
qed

lemma rawLines_line:
  "CHR 0x0A \<notin> set l \<Longrightarrow> rawLines (l @ CHR 0x0A # rest) = l # rawLines rest"
  by (induction l) auto

lemma pkgLine_malformed:
  assumes "\<not> wellFormedLine t" and "Cut t '':'' = (lhs, rhs, ok)"
  shows "pkgLine s t = Inl (if ok then UnexpectedTag lhs else UnexpectedLine t)"
proof -
  obtain m p v where s: "s = (m, p, v)" by (cases s) auto
  from assms have "t \<noteq> []" and "\<not> ok \<or> (lhs \<noteq> ''Info.plist'' \<and> lhs \<noteq> ''CFBundleShortVersionString'')"
    by (auto simp: wellFormedLine_def lineTag_def)
  then show ?thesis using assms(2) s by auto
qed

lemma parse_first_malformed:
  assumes "scanLines stdout = (pre @ t # post, err)"
    and "\<forall>u\<in>set pre. wellFormedLine u"
    and "\<not> wellFormedLine t"
    and "Cut t '':'' = (lhs, rhs, ok)"
  shows "parseInstalledPackages stdout = Inl (if ok then UnexpectedTag lhs else UnexpectedLine t)"
proof -
  from pkgLoop_blockInventory [OF assms(2)]
  obtain m p v where "pkgLoop (Map.empty, [], []) pre = Inr (m, p, v)" by blast
  then have "pkgLoop (Map.empty, [], []) (pre @ t # post) =
      Inl (if ok then UnexpectedTag lhs else UnexpectedLine t)"
    using pkgLine_malformed [OF assms(3,4), of "(m, p, v)"]
    by (simp add: pkgLoop_append del: pkgLine.simps)
  with assms(1) show ?thesis by (rule parse_loop_failed)
qed

lemmas evaluate_blocks =
  blockInventory_def insertBlock_def blockPath_def blockVersion_def pathLines_def
  versionLines_def lineTag_def lineValue_def wellFormedLine_def

section \<open>The tests of the repository, run on the model\<close>

text \<open>
  The inputs of \<open>Test_parseSWVers\<close> and \<open>Test_macos_parseInstalledPackages\<close> in
  \<open>scanner/macos_test.go\<close>, with the results the tests expect (an error where the test
  only asks for one).
\<close>

lemma test_parseSWVers_Mac_OS_X:
  "parseSWVers
     (''ProductName:'' @
      [CHR 0x09, CHR 0x09] @
      ''Mac OS X\<newline>ProductVersion:'' @
      [CHR 0x09, CHR 0x09] @
      ''10.3\<newline>BuildVersion:'' @
      [CHR 0x09, CHR 0x09] @
      ''7A100'') =
   Inr (MacOSX, ''10.3'')"
  by (simp add: parseSWVers_def evaluate)

lemma test_parseSWVers_Mac_OS_X_Server:
  "parseSWVers
     (''ProductName:'' @
      [CHR 0x09, CHR 0x09] @
      ''Mac OS X Server\<newline>ProductVersion:'' @
      [CHR 0x09, CHR 0x09] @
      ''10.6.8\<newline>BuildVersion:'' @
      [CHR 0x09, CHR 0x09] @
      ''10K549'') =
   Inr (MacOSXServer, ''10.6.8'')"
  by (simp add: parseSWVers_def evaluate)

lemma test_parseSWVers_macOS:
  "parseSWVers
     (''ProductName:'' @
      [CHR 0x09, CHR 0x09] @
      ''macOS\<newline>ProductVersion:'' @
      [CHR 0x09, CHR 0x09] @
      ''13.4.1\<newline>BuildVersion:'' @
      [CHR 0x09, CHR 0x09] @
      ''22F82'') =
   Inr (MacOS, ''13.4.1'')"
  by (simp add: parseSWVers_def evaluate)

lemma test_parseSWVers_macOS_Server:
  "parseSWVers
     (''ProductName:'' @
      [CHR 0x09, CHR 0x09] @
      ''macOS Server\<newline>ProductVersion:'' @
      [CHR 0x09, CHR 0x09] @
      ''13.4.1\<newline>BuildVersion:'' @
      [CHR 0x09, CHR 0x09] @
      ''22F82'') =
   Inr (MacOSServer, ''13.4.1'')"
  by (simp add: parseSWVers_def evaluate)

lemma test_parseSWVers_ProductName_error:
  "parseSWVers
     (''ProductName:'' @
      [CHR 0x09, CHR 0x09] @
      ''MacOS\<newline>ProductVersion:'' @
      [CHR 0x09, CHR 0x09] @
      ''13.4.1\<newline>BuildVersion:'' @
      [CHR 0x09, CHR 0x09] @
      ''22F82'') =
   Inl (UnexpectedProductName ''MacOS'')"
  by (simp add: parseSWVers_def evaluate)

lemma test_parseSWVers_ProductVersion_error:
  "parseSWVers
     (''ProductName:'' @
      [CHR 0x09, CHR 0x09] @
      ''macOS\<newline>ProductVersion:'' @
      [CHR 0x09, CHR 0x09] @
      ''\<newline>BuildVersion:'' @
      [CHR 0x09, CHR 0x09] @
      ''22F82'') =
   Inl EmptyProductVersion"
  by (simp add: parseSWVers_def evaluate)

lemma test_parseInstalledPackages_happy:
  "parseInstalledPackages
     (''Info.plist: /Applications/Visual Studio Code.app/Contents/Info.plist\<newline>CFBundleShortVersionString: 1.80.1'' @
      [CHR 0x09] @
      ''\<newline>\<newline>Info.plist: /Applications/Safari.app/Contents/Info.plist\<newline>CFBundleShortVersionString: 16.5.1'' @
      [CHR 0x09] @
      ''\<newline>\<newline>Info.plist: /Applications/Firefox.app/Contents/Info.plist\<newline>CFBundleShortVersionString: 115.0.2'' @
      [CHR 0x09] @
      ''\<newline>\<newline>Info.plist: /Applications/Slack.app/Contents/Info.plist\<newline>CFBundleShortVersionString: 4.33.73'' @
      [CHR 0x09] @
      ''\<newline>\<newline>Info.plist: /System/Applications/Contacts.app/Contents/Info.plist\<newline>CFBundleShortVersionString: /System/Applications/Contacts.app/Contents/Info.plist: Could not extract value, error: No value at that key path or invalid key path: CFBundleShortVersionString'' @
      [CHR 0x09]) =
   Inr ([''Visual Studio Code'' \<mapsto> \<lparr>Name = ''Visual Studio Code'', Version = ''1.80.1''\<rparr>,
         ''Safari'' \<mapsto> \<lparr>Name = ''Safari'', Version = ''16.5.1''\<rparr>,
         ''Firefox'' \<mapsto> \<lparr>Name = ''Firefox'', Version = ''115.0.2''\<rparr>,
         ''Slack'' \<mapsto> \<lparr>Name = ''Slack'', Version = ''4.33.73''\<rparr>,
         ''Contacts'' \<mapsto> \<lparr>Name = ''Contacts'', Version = []\<rparr>], None)"
  by (simp add: parseInstalledPackages_def evaluate)

section \<open>The claims\<close>

text \<open>
  Claim C1, as amended. When the scanner reads the whole text without error (no line of
  65536 bytes or more), the last \<open>ProductName:\<close> line carries one of the four product names
  and the last \<open>ProductVersion:\<close> line a value that is not empty after trimming,
  \<open>parseSWVers\<close> returns the family mapped to the name (\<open>Mac OS X\<close> to \<open>MacOSX\<close>,
  \<open>Mac OS X Server\<close> to \<open>MacOSXServer\<close>, \<open>macOS\<close> to \<open>MacOS\<close>, \<open>macOS Server\<close> to
  \<open>MacOSServer\<close>) and the trimmed version.
\<close>

theorem parseSWVers_recognized:
  assumes "scanLines stdout = (ts, None)"
    and "(lastValue ''ProductName:'' ts, fam) \<in>
           set [(''Mac OS X'', MacOSX), (''Mac OS X Server'', MacOSXServer),
                (''macOS'', MacOS), (''macOS Server'', MacOSServer)]"
    and "lastValue ''ProductVersion:'' ts \<noteq> []"
  shows "parseSWVers stdout = Inr (fam, lastValue ''ProductVersion:'' ts)"
proof -
  have "familyOf (lastValue ''ProductName:'' ts) = Some fam"
    using assms(2) by (auto simp: familyOf_def)
  then show ?thesis
    using parseSWVers_scanned [OF assms(1)] assms(3) by simp
qed

theorem parseSWVers_recognized_witness:
  "parseSWVers (''ProductName:'' @ [CHR 0x09, CHR 0x09] @ ''Mac OS X\<newline>ProductVersion:'' @
      [CHR 0x09, CHR 0x09] @ ''10.3\<newline>BuildVersion:'' @ [CHR 0x09, CHR 0x09] @ ''7A100'') =
     Inr (MacOSX, ''10.3'') \<and>
   parseSWVers ''ProductName: macOS Server\<newline>ProductVersion: 13.4.1 \<newline>'' =
     Inr (MacOSServer, ''13.4.1'')"
proof -
  let ?a = "''ProductName:'' @ [CHR 0x09, CHR 0x09] @ ''Mac OS X\<newline>ProductVersion:'' @
      [CHR 0x09, CHR 0x09] @ ''10.3\<newline>BuildVersion:'' @ [CHR 0x09, CHR 0x09] @ ''7A100''"
  let ?as = "[''ProductName:'' @ [CHR 0x09, CHR 0x09] @ ''Mac OS X'',
      ''ProductVersion:'' @ [CHR 0x09, CHR 0x09] @ ''10.3'',
      ''BuildVersion:'' @ [CHR 0x09, CHR 0x09] @ ''7A100'']"
  let ?b = "''ProductName: macOS Server\<newline>ProductVersion: 13.4.1 \<newline>''"
  let ?bs = "[''ProductName: macOS Server'', ''ProductVersion: 13.4.1 '']"
  have sa: "scanLines ?a = (?as, None)" by (simp add: evaluate)
  have na: "lastValue ''ProductName:'' ?as = ''Mac OS X''" by (simp add: lastValue_def evaluate)
  have va: "lastValue ''ProductVersion:'' ?as = ''10.3''" by (simp add: lastValue_def evaluate)
  have sb: "scanLines ?b = (?bs, None)" by (simp add: evaluate)
  have nb: "lastValue ''ProductName:'' ?bs = ''macOS Server''" by (simp add: lastValue_def evaluate)
  have vb: "lastValue ''ProductVersion:'' ?bs = ''13.4.1''" by (simp add: lastValue_def evaluate)
  have "parseSWVers ?a = Inr (MacOSX, ''10.3'')"
    using parseSWVers_recognized [OF sa, of MacOSX] na va by simp
  moreover have "parseSWVers ?b = Inr (MacOSServer, ''13.4.1'')"
    using parseSWVers_recognized [OF sb, of MacOSServer] nb vb by simp
  ultimately show ?thesis by simp
qed

text \<open>
  The claim as stated, for every text, fails: with a line of 65536 bytes after the two
  lines, the last \<open>ProductName:\<close> line still carries \<open>macOS\<close> and the version is not empty,
  but the scanner stops with \<open>ErrTooLong\<close> and \<open>parseSWVers\<close> returns the scan error.
\<close>

theorem parseSWVers_recognized_counterexample:
  "lastValue ''ProductName:''
     (map dropCR (rawLines (''ProductName: macOS\<newline>ProductVersion: 13.4.1\<newline>'' @
        replicate 65536 (CHR ''x'')))) = ''macOS'' \<and>
   lastValue ''ProductVersion:''
     (map dropCR (rawLines (''ProductName: macOS\<newline>ProductVersion: 13.4.1\<newline>'' @
        replicate 65536 (CHR ''x'')))) = ''13.4.1'' \<and>
   parseSWVers (''ProductName: macOS\<newline>ProductVersion: 13.4.1\<newline>'' @
     replicate 65536 (CHR ''x'')) = Inl (ScanFailed ErrTooLong)"
proof -
  let ?long = "replicate 65536 (CHR ''x'')"
  let ?t = "''ProductName: macOS\<newline>ProductVersion: 13.4.1\<newline>'' @ ?long"
  have r: "rawLines ?t = [''ProductName: macOS'', ''ProductVersion: 13.4.1'', ?long]"
    by (simp add: rawLines_replicate)
  have d: "map dropCR (rawLines ?t) = [''ProductName: macOS'', ''ProductVersion: 13.4.1'', ?long]"
    unfolding r by (simp add: dropCR_replicate) (simp add: dropCR_def)
  have n: "lastValue ''ProductName:'' (map dropCR (rawLines ?t)) = ''macOS''"
    unfolding d by (simp add: lastValue_def HasPrefix_replicate) (simp add: evaluate)
  have v: "lastValue ''ProductVersion:'' (map dropCR (rawLines ?t)) = ''13.4.1''"
    unfolding d by (simp add: lastValue_def HasPrefix_replicate) (simp add: evaluate)
  have "scanLines ?t = ([''ProductName: macOS'', ''ProductVersion: 13.4.1''], Some ErrTooLong)"
    unfolding scanLines_def r by (simp add: MaxScanTokenSize_def dropCR_def)
  then have "parseSWVers ?t = Inl (ScanFailed ErrTooLong)"
    by (rule parseSWVers_scan_failed)
  then show ?thesis using n v by simp
qed

text \<open>
  Claim C2, as amended. When the scanner reads the whole text without error and every line
  is well formed, \<open>parseInstalledPackages\<close> does not fail, and for every record of the text
  (a block with a path) whose last version line has a trimmed value that ends with the
  sentinel \<open>Could not extract value, error: No value at that key path or invalid key path:
  CFBundleShortVersionString\<close> the version stored is the empty string: the record is
  inserted with the empty version under a name that is not empty, and the inventory
  returned holds it under that name unless a later record resolves to the same name.
\<close>

theorem sentinel_version_is_empty:
  assumes "scanLines stdout = (ts, None)"
    and "\<forall>t\<in>set ts. wellFormedLine t"
    and "blocks ts = bs1 @ b # bs2"
    and "blockPath b \<noteq> []"
    and "versionLines b \<noteq> []"
    and "HasSuffix (lineValue (last (versionLines b)))
          ''Could not extract value, error: No value at that key path or invalid key path: CFBundleShortVersionString''"
  shows "parseInstalledPackages stdout = Inr (blockInventory ts, None) \<and>
         blockVersion b = [] \<and>
         packageName (blockPath b) \<noteq> [] \<and>
         (\<forall>pkgs. insertBlock pkgs b =
            pkgs(packageName (blockPath b) \<mapsto>
              \<lparr>Name = packageName (blockPath b), Version = []\<rparr>)) \<and>
         ((\<forall>c\<in>set bs2. blockPath c = [] \<or>
              packageName (blockPath c) \<noteq> packageName (blockPath b)) \<longrightarrow>
          blockInventory ts (packageName (blockPath b)) =
            Some \<lparr>Name = packageName (blockPath b), Version = []\<rparr>)"
proof -
  from pkgLoop_blockInventory [OF assms(2)]
  obtain m p v where l: "pkgLoop (Map.empty, [], []) ts = Inr (m, p, v)"
    and a: "addPending m p v = blockInventory ts" by blast
  have one: "parseInstalledPackages stdout = Inr (blockInventory ts, None)"
    using parse_from_loop [OF assms(1) l] a by simp
  have "HasSuffix (lineValue (last (versionLines b)))
      (''Could not extract value, '' @
       ''error: No value at that key path or invalid key path: CFBundleShortVersionString'')"
    using assms(6) by simp
  then have "HasSuffix (lineValue (last (versionLines b)))
      ''error: No value at that key path or invalid key path: CFBundleShortVersionString''"
    by (rule HasSuffix_longer)
  then have two: "blockVersion b = []"
    by (simp add: blockVersion_def)
  have three: "packageName (blockPath b) \<noteq> []"
    by (simp add: packageName_def Base_not_empty)
  have four: "insertBlock pkgs b =
      pkgs(packageName (blockPath b) \<mapsto> \<lparr>Name = packageName (blockPath b), Version = []\<rparr>)"
    for pkgs
    using assms(4) two by (simp add: insertBlock_def)
  have five: "blockInventory ts (packageName (blockPath b)) =
      Some \<lparr>Name = packageName (blockPath b), Version = []\<rparr>"
    if later: "\<forall>c\<in>set bs2. blockPath c = [] \<or>
      packageName (blockPath c) \<noteq> packageName (blockPath b)"
  proof -
    let ?P = "\<lambda>c. blockPath c \<noteq> [] \<and> packageName (blockPath c) = packageName (blockPath b)"
    have "filter ?P bs2 = []" using later by (auto simp: filter_empty_conv)
    then have f: "filter ?P (blocks ts) = filter ?P bs1 @ [b]"
      using assms(4) by (simp add: assms(3))
    have "blockInventory ts (packageName (blockPath b)) =
        Some \<lparr>Name = packageName (blockPath b), Version = blockVersion (last (filter ?P (blocks ts)))\<rparr>"
      unfolding blockInventory_def by (subst foldl_insertBlock_lookup) (simp add: f)
    then show ?thesis using two by (simp add: f)
  qed
  show ?thesis using one two three four five by blast
qed

theorem sentinel_version_is_empty_witness:
  "parseInstalledPackages
     (''Info.plist: /Applications/Safari.app/Contents/Info.plist\<newline>CFBundleShortVersionString: 16.5.1'' @ [CHR 0x09] @
      ''\<newline>\<newline>Info.plist: /System/Applications/Contacts.app/Contents/Info.plist\<newline>CFBundleShortVersionString: /System/Applications/Contacts.app/Contents/Info.plist: Could not extract value, error: No value at that key path or invalid key path: CFBundleShortVersionString'' @ [CHR 0x09]) =
     Inr ([''Safari'' \<mapsto> \<lparr>Name = ''Safari'', Version = ''16.5.1''\<rparr>,
           ''Contacts'' \<mapsto> \<lparr>Name = ''Contacts'', Version = []\<rparr>], None)"
proof -
  let ?t = "''Info.plist: /Applications/Safari.app/Contents/Info.plist\<newline>CFBundleShortVersionString: 16.5.1'' @ [CHR 0x09] @
      ''\<newline>\<newline>Info.plist: /System/Applications/Contacts.app/Contents/Info.plist\<newline>CFBundleShortVersionString: /System/Applications/Contacts.app/Contents/Info.plist: Could not extract value, error: No value at that key path or invalid key path: CFBundleShortVersionString'' @ [CHR 0x09]"
  let ?b1 = "[''Info.plist: /Applications/Safari.app/Contents/Info.plist'',
      ''CFBundleShortVersionString: 16.5.1'' @ [CHR 0x09]]"
  let ?vl = "''CFBundleShortVersionString: /System/Applications/Contacts.app/Contents/Info.plist: Could not extract value, error: No value at that key path or invalid key path: CFBundleShortVersionString'' @ [CHR 0x09]"
  let ?b = "[''Info.plist: /System/Applications/Contacts.app/Contents/Info.plist'', ?vl]"
  let ?ts = "?b1 @ [] # ?b"
  have s: "scanLines ?t = (?ts, None)"
    by (simp add: evaluate)
  have w: "\<forall>t\<in>set ?ts. wellFormedLine t"
    by (simp add: evaluate_blocks evaluate)
  have bl: "blocks ?ts = [?b1] @ ?b # []"
    by simp
  have vls: "versionLines ?b = [?vl]"
    by (simp add: evaluate_blocks evaluate)
  have p: "blockPath ?b = ''/System/Applications/Contacts.app/Contents/Info.plist''"
    by (simp add: evaluate_blocks evaluate)
  have h1: "blockPath ?b \<noteq> []" unfolding p by simp
  have h2: "versionLines ?b \<noteq> []" unfolding vls by simp
  have h3: "HasSuffix (lineValue (last (versionLines ?b)))
      ''Could not extract value, error: No value at that key path or invalid key path: CFBundleShortVersionString''"
    unfolding vls by (simp add: evaluate_blocks evaluate)
  note th = sentinel_version_is_empty [OF s w bl h1 h2 h3]
  have i: "blockInventory ?ts =
      [''Safari'' \<mapsto> \<lparr>Name = ''Safari'', Version = ''16.5.1''\<rparr>,
       ''Contacts'' \<mapsto> \<lparr>Name = ''Contacts'', Version = []\<rparr>]"
    by (simp add: evaluate_blocks evaluate)
  from th [THEN conjunct1] show ?thesis unfolding i .
qed

text \<open>
  The claim as stated, for every such record of every text, fails. The version line below
  has a trimmed value that ends with the sentinel, and yet the parse fails with the
  line-format error when a line without a colon follows the record, and with the scan error
  when a line of 65536 bytes follows it; and when a second version line follows in the same
  record, the version stored is that of the second line.
\<close>

theorem sentinel_version_is_empty_counterexample:
  "HasSuffix (lineValue ''CFBundleShortVersionString: Could not extract value, error: No value at that key path or invalid key path: CFBundleShortVersionString'')
     ''Could not extract value, error: No value at that key path or invalid key path: CFBundleShortVersionString'' \<and>
   parseInstalledPackages
     ''Info.plist: /a/X.app/Contents/Info.plist\<newline>CFBundleShortVersionString: Could not extract value, error: No value at that key path or invalid key path: CFBundleShortVersionString\<newline>abc'' =
     Inl (UnexpectedLine ''abc'') \<and>
   parseInstalledPackages
     (''Info.plist: /a/X.app/Contents/Info.plist\<newline>CFBundleShortVersionString: Could not extract value, error: No value at that key path or invalid key path: CFBundleShortVersionString\<newline>'' @
      replicate 65536 (CHR ''x'')) = Inl (ScanFailed ErrTooLong) \<and>
   parseInstalledPackages
     ''Info.plist: /a/X.app/Contents/Info.plist\<newline>CFBundleShortVersionString: Could not extract value, error: No value at that key path or invalid key path: CFBundleShortVersionString\<newline>CFBundleShortVersionString: 1.0'' =
     Inr ([''X'' \<mapsto> \<lparr>Name = ''X'', Version = ''1.0''\<rparr>], None)"
proof -
  let ?pl = "''Info.plist: /a/X.app/Contents/Info.plist''"
  let ?vl = "''CFBundleShortVersionString: Could not extract value, error: No value at that key path or invalid key path: CFBundleShortVersionString''"
  let ?pre = "[?pl, ?vl]"
  let ?long = "replicate 65536 (CHR ''x'')"
  let ?t1 = "''Info.plist: /a/X.app/Contents/Info.plist\<newline>CFBundleShortVersionString: Could not extract value, error: No value at that key path or invalid key path: CFBundleShortVersionString\<newline>abc''"
  let ?t2 = "''Info.plist: /a/X.app/Contents/Info.plist\<newline>CFBundleShortVersionString: Could not extract value, error: No value at that key path or invalid key path: CFBundleShortVersionString\<newline>'' @ ?long"
  let ?t3 = "''Info.plist: /a/X.app/Contents/Info.plist\<newline>CFBundleShortVersionString: Could not extract value, error: No value at that key path or invalid key path: CFBundleShortVersionString\<newline>CFBundleShortVersionString: 1.0''"
  have h: "HasSuffix (lineValue ?vl)
      ''Could not extract value, error: No value at that key path or invalid key path: CFBundleShortVersionString''"
    by (simp add: evaluate_blocks evaluate)
  have w: "\<forall>t\<in>set ?pre. wellFormedLine t"
    by (simp add: evaluate_blocks evaluate)
  have s1: "scanLines ?t1 = (?pre @ ''abc'' # [], None)"
    by (simp add: evaluate)
  have m: "\<not> wellFormedLine ''abc''"
    by (simp add: evaluate_blocks evaluate)
  have c: "Cut ''abc'' '':'' = (''abc'', [], False)"
    by (simp add: evaluate)
  have a: "parseInstalledPackages ?t1 = Inl (UnexpectedLine ''abc'')"
    using parse_first_malformed [OF s1 w m c] by simp
  have r: "rawLines ?t2 = ?pre @ [?long]"
    by (simp add: rawLines_replicate)
  have "scanLines ?t2 = (?pre, Some ErrTooLong)"
    unfolding scanLines_def r by (simp add: MaxScanTokenSize_def dropCR_def)
  from this w have b: "parseInstalledPackages ?t2 = Inl (ScanFailed ErrTooLong)"
    by (rule parse_scan_failed)
  have d: "parseInstalledPackages ?t3 = Inr ([''X'' \<mapsto> \<lparr>Name = ''X'', Version = ''1.0''\<rparr>], None)"
    by (simp add: parseInstalledPackages_def evaluate)
  show ?thesis using h a b d by simp
qed

text \<open>
  Claim C3. When a record is finalized (at a blank line, or after the loop by
  \<open>addPending\<close>) with a pending path \<open>p\<close>, the package is stored under \<open>packageName p\<close>,
  which is also its \<open>Name\<close>: the suffix \<open>.app/Contents/Info.plist\<close> is removed and the last
  element of what is left is taken. For a path that ends with a directory element
  \<open>nm.app\<close> followed by \<open>/Contents/Info.plist\<close> the name is \<open>nm\<close>; the path
  \<open>/Applications/Visual Studio Code.app/Contents/Info.plist\<close> gives \<open>Visual Studio Code\<close>.
\<close>

theorem package_name_from_path:
  assumes "p \<noteq> []"
  shows "pkgLine (pkgs, p, v) [] =
           Inr (pkgs(packageName p \<mapsto> \<lparr>Name = packageName p, Version = v\<rparr>), [], []) \<and>
         addPending pkgs p v = pkgs(packageName p \<mapsto> \<lparr>Name = packageName p, Version = v\<rparr>) \<and>
         (\<forall>pre nm. p = pre @ nm @ ''.app/Contents/Info.plist'' \<and> (pre = [] \<or> last pre = CHR ''/'') \<and>
             nm \<noteq> [] \<and> CHR ''/'' \<notin> set nm \<longrightarrow> packageName p = nm) \<and>
         packageName ''/Applications/Visual Studio Code.app/Contents/Info.plist'' =
           ''Visual Studio Code''"
proof -
  have a: "addPending pkgs p v = pkgs(packageName p \<mapsto> \<lparr>Name = packageName p, Version = v\<rparr>)"
    using assms by (simp add: addPending_def)
  have b: "packageName (pre @ nm @ ''.app/Contents/Info.plist'') = nm"
    if "pre = [] \<or> last pre = CHR ''/''" and "nm \<noteq> []" and "CHR ''/'' \<notin> set nm" for pre nm
  proof -
    have "TrimSuffix ((pre @ nm) @ ''.app/Contents/Info.plist'') ''.app/Contents/Info.plist'' = pre @ nm"
      by (rule TrimSuffix_append)
    then show ?thesis
      using Base_final_element [OF that(3) that(2) that(1)] by (simp add: packageName_def)
  qed
  have c: "packageName ''/Applications/Visual Studio Code.app/Contents/Info.plist'' =
      ''Visual Studio Code''"
    by (simp add: evaluate)
  show ?thesis using a b c by simp
qed

theorem package_name_from_path_witness:
  "pkgLine (Map.empty, ''/Applications/Safari.app/Contents/Info.plist'', ''16.5.1'') [] =
     Inr ([''Safari'' \<mapsto> \<lparr>Name = ''Safari'', Version = ''16.5.1''\<rparr>], [], [])"
proof -
  have n: "''/Applications/Safari.app/Contents/Info.plist'' \<noteq> []" by simp
  have e: "''/Applications/Safari.app/Contents/Info.plist'' =
      ''/Applications/'' @ ''Safari'' @ ''.app/Contents/Info.plist''" by simp
  note th = package_name_from_path [OF n, of Map.empty "''16.5.1''"]
  note q = th [THEN conjunct2, THEN conjunct2, THEN conjunct1, rule_format,
      of "''/Applications/''" "''Safari''"]
  have "packageName ''/Applications/Safari.app/Contents/Info.plist'' = ''Safari''"
    using q by simp
  then show ?thesis
    using th by simp
qed

text \<open>
  Claim C4, as amended. When the scanner delivers a line that is not well formed (not
  blank, and without a colon or with a tag other than \<open>Info.plist\<close> and
  \<open>CFBundleShortVersionString\<close>) and every line before it is well formed,
  \<open>parseInstalledPackages\<close> fails at that line, whatever follows it: with the line-format
  error quoting the line when it has no colon, and otherwise with the tag error quoting
  the tag and the two permitted tags. The result is the error alone, with no inventory.
\<close>

theorem malformed_line_fails:
  assumes "scanLines stdout = (pre @ t # post, err)"
    and "\<forall>u\<in>set pre. wellFormedLine u"
    and "\<not> wellFormedLine t"
    and "Cut t '':'' = (lhs, rhs, ok)"
  shows "parseInstalledPackages stdout = Inl (if ok then UnexpectedTag lhs else UnexpectedLine t) \<and>
         errorMessage (UnexpectedLine t) =
           ''unexpected installed packages line. expected: '' @ [CHR 0x22] @ ''<TAG>: <VALUE>'' @
           [CHR 0x22] @ '', actual: '' @ [CHR 0x22] @ t @ [CHR 0x22] \<and>
         errorMessage (UnexpectedTag lhs) =
           ''unexpected installed packages line tag. expected: ['' @ [CHR 0x22] @ ''Info.plist'' @
           [CHR 0x22] @ '', '' @ [CHR 0x22] @ ''CFBundleShortVersionString'' @ [CHR 0x22] @
           ''], actual: '' @ [CHR 0x22] @ lhs @ [CHR 0x22]"
  using parse_first_malformed [OF assms] by simp

theorem malformed_line_fails_witness:
  "parseInstalledPackages
     ''Info.plist: /Applications/Safari.app/Contents/Info.plist\<newline>CFBundleShortVersionString 16.5.1\<newline>\<newline>Foo: bar'' =
     Inl (UnexpectedLine ''CFBundleShortVersionString 16.5.1'') \<and>
   parseInstalledPackages ''\<newline>Version: 1.0\<newline>not reached'' = Inl (UnexpectedTag ''Version'')"
proof -
  let ?a = "''Info.plist: /Applications/Safari.app/Contents/Info.plist\<newline>CFBundleShortVersionString 16.5.1\<newline>\<newline>Foo: bar''"
  let ?pre = "[''Info.plist: /Applications/Safari.app/Contents/Info.plist'']"
  let ?t = "''CFBundleShortVersionString 16.5.1''"
  have s: "scanLines ?a = (?pre @ ?t # [[], ''Foo: bar''], None)"
    by (simp add: evaluate)
  have w: "\<forall>u\<in>set ?pre. wellFormedLine u"
    by (simp add: wellFormedLine_def lineTag_def evaluate)
  have n: "\<not> wellFormedLine ?t"
    by (simp add: wellFormedLine_def lineTag_def evaluate)
  have c: "Cut ?t '':'' = (?t, [], False)"
    by (simp add: evaluate)
  have one: "parseInstalledPackages ?a = Inl (UnexpectedLine ?t)"
    using malformed_line_fails [OF s w n c] by simp
  let ?b = "''\<newline>Version: 1.0\<newline>not reached''"
  let ?u = "''Version: 1.0''"
  have s': "scanLines ?b = ([[]] @ ?u # [''not reached''], None)"
    by (simp add: evaluate)
  have w': "\<forall>u\<in>set [[]]. wellFormedLine u"
    by (simp add: wellFormedLine_def)
  have n': "\<not> wellFormedLine ?u"
    by (simp add: wellFormedLine_def lineTag_def evaluate)
  have c': "Cut ?u '':'' = (''Version'', '' 1.0'', True)"
    by (simp add: evaluate)
  have "parseInstalledPackages ?b = Inl (UnexpectedTag ''Version'')"
    using malformed_line_fails [OF s' w' n' c'] by simp
  with one show ?thesis by simp
qed

text \<open>
  The claim as stated, for every such line of every text, fails twice. After an earlier
  malformed line the parse has already failed there: for \<open>Foo: bar\<close> on the second line the
  error is the line-format error of the first line, not the tag error for \<open>Foo\<close>. And
  after a line of 65536 bytes or more the scanner has stopped: the malformed line is never
  seen and the error is the scan error.
\<close>

theorem malformed_line_fails_counterexample:
  "''Foo: bar'' \<in> set (map dropCR (rawLines ''abc\<newline>Foo: bar'')) \<and>
   Cut ''Foo: bar'' '':'' = (''Foo'', '' bar'', True) \<and>
   parseInstalledPackages ''abc\<newline>Foo: bar'' = Inl (UnexpectedLine ''abc'') \<and>
   ''abc'' \<in> set (map dropCR (rawLines
      (''Info.plist: '' @ replicate 65536 (CHR ''x'') @ ''\<newline>abc''))) \<and>
   Cut ''abc'' '':'' = (''abc'', [], False) \<and>
   parseInstalledPackages (''Info.plist: '' @ replicate 65536 (CHR ''x'') @ ''\<newline>abc'') =
     Inl (ScanFailed ErrTooLong)"
proof -
  have a: "''Foo: bar'' \<in> set (map dropCR (rawLines ''abc\<newline>Foo: bar''))"
    by (simp add: dropCR_def)
  have b: "Cut ''Foo: bar'' '':'' = (''Foo'', '' bar'', True)"
    by (simp add: evaluate)
  have s: "scanLines ''abc\<newline>Foo: bar'' = ([] @ ''abc'' # [''Foo: bar''], None)"
    by (simp add: evaluate)
  have n: "\<not> wellFormedLine ''abc''"
    by (simp add: wellFormedLine_def lineTag_def evaluate)
  have c: "Cut ''abc'' '':'' = (''abc'', [], False)"
    by (simp add: evaluate)
  have w: "\<forall>u\<in>set ([] :: string list). wellFormedLine u" by simp
  have d: "parseInstalledPackages ''abc\<newline>Foo: bar'' = Inl (UnexpectedLine ''abc'')"
    using parse_first_malformed [OF s w n c] by simp
  let ?long = "''Info.plist: '' @ replicate 65536 (CHR ''x'')"
  let ?t = "''Info.plist: '' @ replicate 65536 (CHR ''x'') @ ''\<newline>abc''"
  have "rawLines (replicate 65536 (CHR ''x'') @ ''\<newline>abc'') = [replicate 65536 (CHR ''x''), ''abc'']"
    using rawLines_line [of "replicate 65536 (CHR ''x'')" "''abc''"] by simp
  then have r: "rawLines ?t = [?long, ''abc'']"
    by simp
  have e: "''abc'' \<in> set (map dropCR (rawLines ?t))"
    unfolding r by (simp add: dropCR_def)
  have "scanLines ?t = ([], Some ErrTooLong)"
    unfolding scanLines_def r by (simp add: MaxScanTokenSize_def)
  from parse_scan_failed [OF this] have "parseInstalledPackages ?t = Inl (ScanFailed ErrTooLong)"
    by simp
  with a b c d e show ?thesis by simp
qed

text \<open>
  Claim C5, as amended. When the scanner reads the whole text without error and every line
  is well formed, \<open>parseInstalledPackages\<close> succeeds, and its inventory is that of the
  blocks of the text: under each name it holds one package, with the version of the last
  block that resolves to that name, and nothing under a name no block resolves to. So of
  two blocks with the same derived name the later one wins, when no block after it has
  that name.
\<close>

theorem last_block_wins:
  assumes "scanLines stdout = (ts, None)"
    and "\<forall>t\<in>set ts. wellFormedLine t"
  shows "parseInstalledPackages stdout = Inr (blockInventory ts, None) \<and>
         (\<forall>n. blockInventory ts n =
            (if filter (\<lambda>b. blockPath b \<noteq> [] \<and> packageName (blockPath b) = n) (blocks ts) = []
             then None
             else Some \<lparr>Name = n,
                    Version = blockVersion
                      (last (filter (\<lambda>b. blockPath b \<noteq> [] \<and> packageName (blockPath b) = n)
                         (blocks ts)))\<rparr>)) \<and>
         (\<forall>bs1 b1 bs2 b2 bs3.
            blocks ts = bs1 @ b1 # bs2 @ b2 # bs3 \<and> blockPath b1 \<noteq> [] \<and> blockPath b2 \<noteq> [] \<and>
            packageName (blockPath b1) = packageName (blockPath b2) \<and>
            (\<forall>b\<in>set bs3. blockPath b = [] \<or>
               packageName (blockPath b) \<noteq> packageName (blockPath b2)) \<longrightarrow>
            blockInventory ts (packageName (blockPath b2)) =
              Some \<lparr>Name = packageName (blockPath b2), Version = blockVersion b2\<rparr>)"
proof -
  from pkgLoop_blockInventory [OF assms(2)]
  obtain m p v where l: "pkgLoop (Map.empty, [], []) ts = Inr (m, p, v)"
    and a: "addPending m p v = blockInventory ts" by blast
  have one: "parseInstalledPackages stdout = Inr (blockInventory ts, None)"
    using parse_from_loop [OF assms(1) l] a by simp
  have two: "blockInventory ts n =
      (if filter (\<lambda>b. blockPath b \<noteq> [] \<and> packageName (blockPath b) = n) (blocks ts) = []
       then None
       else Some \<lparr>Name = n,
              Version = blockVersion
                (last (filter (\<lambda>b. blockPath b \<noteq> [] \<and> packageName (blockPath b) = n)
                   (blocks ts)))\<rparr>)" for n
    unfolding blockInventory_def by (subst foldl_insertBlock_lookup) simp
  have three: "blockInventory ts (packageName (blockPath b2)) =
      Some \<lparr>Name = packageName (blockPath b2), Version = blockVersion b2\<rparr>"
    if b: "blocks ts = bs1 @ b1 # bs2 @ b2 # bs3" and p2: "blockPath b2 \<noteq> []"
      and later: "\<forall>b\<in>set bs3. blockPath b = [] \<or>
        packageName (blockPath b) \<noteq> packageName (blockPath b2)"
    for bs1 b1 bs2 b2 bs3
  proof -
    let ?P = "\<lambda>b. blockPath b \<noteq> [] \<and> packageName (blockPath b) = packageName (blockPath b2)"
    have "filter ?P bs3 = []" using later by (auto simp: filter_empty_conv)
    then have "filter ?P (blocks ts) = (filter ?P (bs1 @ b1 # bs2)) @ [b2]"
      using p2 by (simp add: b)
    then show ?thesis using two [of "packageName (blockPath b2)"] by simp
  qed
  show ?thesis using one two three by blast
qed

theorem last_block_wins_witness:
  "parseInstalledPackages
     ''Info.plist: /Applications/Safari.app/Contents/Info.plist\<newline>CFBundleShortVersionString: 16.5.1\<newline>\<newline>Info.plist: /System/Applications/Safari.app/Contents/Info.plist\<newline>CFBundleShortVersionString: 17.0\<newline>'' =
     Inr ([''Safari'' \<mapsto> \<lparr>Name = ''Safari'', Version = ''17.0''\<rparr>], None)"
proof -
  let ?t = "''Info.plist: /Applications/Safari.app/Contents/Info.plist\<newline>CFBundleShortVersionString: 16.5.1\<newline>\<newline>Info.plist: /System/Applications/Safari.app/Contents/Info.plist\<newline>CFBundleShortVersionString: 17.0\<newline>''"
  let ?ts = "[''Info.plist: /Applications/Safari.app/Contents/Info.plist'',
      ''CFBundleShortVersionString: 16.5.1'', [],
      ''Info.plist: /System/Applications/Safari.app/Contents/Info.plist'',
      ''CFBundleShortVersionString: 17.0'']"
  have s: "scanLines ?t = (?ts, None)"
    by (simp add: evaluate)
  have w: "\<forall>t\<in>set ?ts. wellFormedLine t"
    by (simp add: evaluate_blocks evaluate)
  have i: "blockInventory ?ts = [''Safari'' \<mapsto> \<lparr>Name = ''Safari'', Version = ''17.0''\<rparr>]"
    by (simp add: evaluate_blocks evaluate)
  show ?thesis
    using last_block_wins [OF s w] unfolding i by simp
qed

text \<open>
  The claim as stated, for every text in which two blocks resolve to the same name, fails:
  the two blocks below both resolve to \<open>X\<close>, and the parse fails with the scan error when a
  line of 65536 bytes follows them, and with the line-format error when a line without a
  colon does.
\<close>

theorem last_block_wins_counterexample:
  "packageName ''/a/X.app/Contents/Info.plist'' = packageName ''/b/X.app/Contents/Info.plist'' \<and>
   parseInstalledPackages
     (''Info.plist: /a/X.app/Contents/Info.plist\<newline>\<newline>Info.plist: /b/X.app/Contents/Info.plist\<newline>'' @
      replicate 65536 (CHR ''x'')) = Inl (ScanFailed ErrTooLong) \<and>
   parseInstalledPackages
     ''Info.plist: /a/X.app/Contents/Info.plist\<newline>\<newline>Info.plist: /b/X.app/Contents/Info.plist\<newline>not a record'' =
     Inl (UnexpectedLine ''not a record'')"
proof -
  let ?pre = "[''Info.plist: /a/X.app/Contents/Info.plist'', [],
      ''Info.plist: /b/X.app/Contents/Info.plist'']"
  let ?long = "replicate 65536 (CHR ''x'')"
  let ?t = "''Info.plist: /a/X.app/Contents/Info.plist\<newline>\<newline>Info.plist: /b/X.app/Contents/Info.plist\<newline>'' @ ?long"
  let ?u = "''Info.plist: /a/X.app/Contents/Info.plist\<newline>\<newline>Info.plist: /b/X.app/Contents/Info.plist\<newline>not a record''"
  have n: "packageName ''/a/X.app/Contents/Info.plist'' = packageName ''/b/X.app/Contents/Info.plist''"
    by (simp add: evaluate)
  have w: "\<forall>t\<in>set ?pre. wellFormedLine t"
    by (simp add: evaluate_blocks evaluate)
  have r: "rawLines ?t = ?pre @ [?long]"
    by (simp add: rawLines_replicate)
  have "scanLines ?t = (?pre, Some ErrTooLong)"
    unfolding scanLines_def r by (simp add: MaxScanTokenSize_def dropCR_def)
  from this w have a: "parseInstalledPackages ?t = Inl (ScanFailed ErrTooLong)"
    by (rule parse_scan_failed)
  have s: "scanLines ?u = (?pre @ ''not a record'' # [], None)"
    by (simp add: evaluate)
  have m: "\<not> wellFormedLine ''not a record''"
    by (simp add: evaluate_blocks evaluate)
  have c: "Cut ''not a record'' '':'' = (''not a record'', [], False)"
    by (simp add: evaluate)
  have b: "parseInstalledPackages ?u = Inl (UnexpectedLine ''not a record'')"
    using parse_first_malformed [OF s w m c] by simp
  show ?thesis using n a b by simp
qed

text \<open>
  Claim C6, as amended. When the scanner reads the whole text without error and the
  captured product name is none of the four names, \<open>parseSWVers\<close> fails with the
  unexpected-product-name error, whose message quotes the captured name.
\<close>

theorem parseSWVers_unknown_name:
  assumes "scanLines stdout = (ts, None)"
    and "lastValue ''ProductName:'' ts \<notin>
           set [''Mac OS X'', ''Mac OS X Server'', ''macOS'', ''macOS Server'']"
  shows "parseSWVers stdout = Inl (UnexpectedProductName (lastValue ''ProductName:'' ts)) \<and>
         errorMessage (UnexpectedProductName (lastValue ''ProductName:'' ts)) =
           ''Failed to detect MacOS Family. err: '' @ [CHR 0x22] @ lastValue ''ProductName:'' ts @
           [CHR 0x22] @ '' is unexpected product name''"
proof -
  have "familyOf (lastValue ''ProductName:'' ts) = None"
    using assms(2) by (simp add: familyOf_def)
  then show ?thesis
    using parseSWVers_scanned [OF assms(1)] by simp
qed

theorem parseSWVers_unknown_name_witness:
  "parseSWVers (''ProductName:'' @ [CHR 0x09, CHR 0x09] @ ''MacOS\<newline>ProductVersion:'' @
      [CHR 0x09, CHR 0x09] @ ''13.4.1\<newline>BuildVersion:'' @ [CHR 0x09, CHR 0x09] @ ''22F82'') =
     Inl (UnexpectedProductName ''MacOS'') \<and>
   errorMessage (UnexpectedProductName ''MacOS'') =
     ''Failed to detect MacOS Family. err: '' @ [CHR 0x22] @ ''MacOS'' @ [CHR 0x22] @
     '' is unexpected product name''"
proof -
  let ?a = "''ProductName:'' @ [CHR 0x09, CHR 0x09] @ ''MacOS\<newline>ProductVersion:'' @
      [CHR 0x09, CHR 0x09] @ ''13.4.1\<newline>BuildVersion:'' @ [CHR 0x09, CHR 0x09] @ ''22F82''"
  let ?as = "[''ProductName:'' @ [CHR 0x09, CHR 0x09] @ ''MacOS'',
      ''ProductVersion:'' @ [CHR 0x09, CHR 0x09] @ ''13.4.1'',
      ''BuildVersion:'' @ [CHR 0x09, CHR 0x09] @ ''22F82'']"
  have sa: "scanLines ?a = (?as, None)" by (simp add: evaluate)
  have na: "lastValue ''ProductName:'' ?as = ''MacOS''" by (simp add: lastValue_def evaluate)
  have "lastValue ''ProductName:'' ?as \<notin>
      set [''Mac OS X'', ''Mac OS X Server'', ''macOS'', ''macOS Server'']"
    unfolding na by simp
  from parseSWVers_unknown_name [OF sa this] show ?thesis
    unfolding na by simp
qed

text \<open>
  The claim as stated fails on a text whose captured name is \<open>MacOS\<close> and which goes on
  with a line of 65536 bytes: the error is the scan error, not the product-name error.
\<close>

theorem parseSWVers_unknown_name_counterexample:
  "lastValue ''ProductName:''
     (map dropCR (rawLines (''ProductName: MacOS\<newline>'' @ replicate 65536 (CHR ''x'')))) =
     ''MacOS'' \<and>
   parseSWVers (''ProductName: MacOS\<newline>'' @ replicate 65536 (CHR ''x'')) =
     Inl (ScanFailed ErrTooLong)"
proof -
  let ?long = "replicate 65536 (CHR ''x'')"
  let ?t = "''ProductName: MacOS\<newline>'' @ ?long"
  have r: "rawLines ?t = [''ProductName: MacOS'', ?long]"
    by (simp add: rawLines_replicate)
  have d: "map dropCR (rawLines ?t) = [''ProductName: MacOS'', ?long]"
    unfolding r by (simp add: dropCR_replicate) (simp add: dropCR_def)
  have n: "lastValue ''ProductName:'' (map dropCR (rawLines ?t)) = ''MacOS''"
    unfolding d by (simp add: lastValue_def HasPrefix_replicate) (simp add: evaluate)
  have "scanLines ?t = ([''ProductName: MacOS''], Some ErrTooLong)"
    unfolding scanLines_def r by (simp add: MaxScanTokenSize_def dropCR_def)
  then have "parseSWVers ?t = Inl (ScanFailed ErrTooLong)"
    by (rule parseSWVers_scan_failed)
  then show ?thesis using n by simp
qed

text \<open>
  Claim C7, as amended. When the scanner reads the whole text without error and the
  captured product version is empty, \<open>parseSWVers\<close> fails with the empty-version error if
  the captured name is one of the four names, and with the unexpected-product-name error
  otherwise (the name is checked first); the two errors and their messages differ.
\<close>

theorem parseSWVers_empty_version:
  assumes "scanLines stdout = (ts, None)"
    and "lastValue ''ProductVersion:'' ts = []"
  shows "(lastValue ''ProductName:'' ts \<in>
            set [''Mac OS X'', ''Mac OS X Server'', ''macOS'', ''macOS Server''] \<longrightarrow>
          parseSWVers stdout = Inl EmptyProductVersion) \<and>
         (lastValue ''ProductName:'' ts \<notin>
            set [''Mac OS X'', ''Mac OS X Server'', ''macOS'', ''macOS Server''] \<longrightarrow>
          parseSWVers stdout = Inl (UnexpectedProductName (lastValue ''ProductName:'' ts))) \<and>
         (\<forall>name. EmptyProductVersion \<noteq> UnexpectedProductName name \<and>
            errorMessage EmptyProductVersion \<noteq> errorMessage (UnexpectedProductName name))"
proof -
  have a: "parseSWVers stdout = Inl EmptyProductVersion"
    if "lastValue ''ProductName:'' ts \<in>
          set [''Mac OS X'', ''Mac OS X Server'', ''macOS'', ''macOS Server'']"
  proof -
    have "familyOf (lastValue ''ProductName:'' ts) \<noteq> None"
      using that by (auto simp: familyOf_def)
    then show ?thesis
      using parseSWVers_scanned [OF assms(1)] assms(2) by auto
  qed
  have b: "parseSWVers stdout = Inl (UnexpectedProductName (lastValue ''ProductName:'' ts))"
    if "lastValue ''ProductName:'' ts \<notin>
          set [''Mac OS X'', ''Mac OS X Server'', ''macOS'', ''macOS Server'']"
  proof -
    have "familyOf (lastValue ''ProductName:'' ts) = None"
      using that by (simp add: familyOf_def)
    then show ?thesis
      using parseSWVers_scanned [OF assms(1)] by simp
  qed
  have c: "errorMessage EmptyProductVersion \<noteq> errorMessage (UnexpectedProductName name)" for name
    by simp
  show ?thesis using a b c by blast
qed

theorem parseSWVers_empty_version_witness:
  "parseSWVers (''ProductName:'' @ [CHR 0x09, CHR 0x09] @ ''macOS\<newline>ProductVersion:'' @
      [CHR 0x09, CHR 0x09] @ ''\<newline>BuildVersion:'' @ [CHR 0x09, CHR 0x09] @ ''22F82'') =
     Inl EmptyProductVersion \<and>
   parseSWVers ''ProductName: MacOS\<newline>BuildVersion: 22F82'' =
     Inl (UnexpectedProductName ''MacOS'')"
proof -
  let ?a = "''ProductName:'' @ [CHR 0x09, CHR 0x09] @ ''macOS\<newline>ProductVersion:'' @
      [CHR 0x09, CHR 0x09] @ ''\<newline>BuildVersion:'' @ [CHR 0x09, CHR 0x09] @ ''22F82''"
  let ?as = "[''ProductName:'' @ [CHR 0x09, CHR 0x09] @ ''macOS'',
      ''ProductVersion:'' @ [CHR 0x09, CHR 0x09],
      ''BuildVersion:'' @ [CHR 0x09, CHR 0x09] @ ''22F82'']"
  let ?b = "''ProductName: MacOS\<newline>BuildVersion: 22F82''"
  let ?bs = "[''ProductName: MacOS'', ''BuildVersion: 22F82'']"
  have sa: "scanLines ?a = (?as, None)" by (simp add: evaluate)
  have na: "lastValue ''ProductName:'' ?as = ''macOS''" by (simp add: lastValue_def evaluate)
  have va: "lastValue ''ProductVersion:'' ?as = []" by (simp add: lastValue_def evaluate)
  have sb: "scanLines ?b = (?bs, None)" by (simp add: evaluate)
  have nb: "lastValue ''ProductName:'' ?bs = ''MacOS''" by (simp add: lastValue_def evaluate)
  have vb: "lastValue ''ProductVersion:'' ?bs = []" by (simp add: lastValue_def evaluate)
  have "parseSWVers ?a = Inl EmptyProductVersion"
    using parseSWVers_empty_version [OF sa va] unfolding na by simp
  moreover have "parseSWVers ?b = Inl (UnexpectedProductName ''MacOS'')"
    using parseSWVers_empty_version [OF sb vb] unfolding nb by simp
  ultimately show ?thesis by simp
qed

text \<open>
  The claim as stated fails on a text with a known name, an empty version and a further
  line of 65536 bytes: the error is the scan error, not the empty-version error.
\<close>

theorem parseSWVers_empty_version_counterexample:
  "lastValue ''ProductName:''
     (map dropCR (rawLines (''ProductName: macOS\<newline>ProductVersion: \<newline>'' @
        replicate 65536 (CHR ''x'')))) = ''macOS'' \<and>
   lastValue ''ProductVersion:''
     (map dropCR (rawLines (''ProductName: macOS\<newline>ProductVersion: \<newline>'' @
        replicate 65536 (CHR ''x'')))) = [] \<and>
   parseSWVers (''ProductName: macOS\<newline>ProductVersion: \<newline>'' @
     replicate 65536 (CHR ''x'')) = Inl (ScanFailed ErrTooLong)"
proof -
  let ?long = "replicate 65536 (CHR ''x'')"
  let ?t = "''ProductName: macOS\<newline>ProductVersion: \<newline>'' @ ?long"
  have r: "rawLines ?t = [''ProductName: macOS'', ''ProductVersion: '', ?long]"
    by (simp add: rawLines_replicate)
  have d: "map dropCR (rawLines ?t) = [''ProductName: macOS'', ''ProductVersion: '', ?long]"
    unfolding r by (simp add: dropCR_replicate) (simp add: dropCR_def)
  have n: "lastValue ''ProductName:'' (map dropCR (rawLines ?t)) = ''macOS''"
    unfolding d by (simp add: lastValue_def HasPrefix_replicate) (simp add: evaluate)
  have v: "lastValue ''ProductVersion:'' (map dropCR (rawLines ?t)) = []"
    unfolding d by (simp add: lastValue_def HasPrefix_replicate) (simp add: evaluate)
  have "scanLines ?t = ([''ProductName: macOS'', ''ProductVersion: ''], Some ErrTooLong)"
    unfolding scanLines_def r by (simp add: MaxScanTokenSize_def dropCR_def)
  then have "parseSWVers ?t = Inl (ScanFailed ErrTooLong)"
    by (rule parseSWVers_scan_failed)
  then show ?thesis using n v by simp
qed

text \<open>
  Claim C8, as amended. When the scanner reaches the end of the text without error and the
  loop ends with a pending path, \<open>parseInstalledPackages\<close> returns the inventory with the
  pending record inserted under its derived name: the same inventory that a further blank
  line gives the loop, and the same result as for the text with a blank line appended.
  When the last record is a single \<open>Info.plist\<close> line, its version is the empty string.
\<close>

theorem end_of_input_finalizes:
  assumes "scanLines stdout = (ts, None)"
    and "pkgLoop (Map.empty, [], []) ts = Inr (pkgs, p, v)"
    and "p \<noteq> []"
  shows "parseInstalledPackages stdout =
           Inr (pkgs(packageName p \<mapsto> \<lparr>Name = packageName p, Version = v\<rparr>), None) \<and>
         pkgLoop (Map.empty, [], []) (ts @ [[]]) =
           Inr (pkgs(packageName p \<mapsto> \<lparr>Name = packageName p, Version = v\<rparr>), [], []) \<and>
         parseInstalledPackages
           (stdout @ (if stdout = [] \<or> last stdout = CHR 0x0A then [CHR 0x0A]
                      else [CHR 0x0A, CHR 0x0A])) =
           parseInstalledPackages stdout \<and>
         (\<forall>pre t rhs pk.
            ts = pre @ [t] \<and> pkgLoop (Map.empty, [], []) pre = Inr (pk, [], []) \<and>
            Cut t '':'' = (''Info.plist'', rhs, True) \<longrightarrow>
            pkgs = pk \<and> p = TrimSpace rhs \<and> v = [])"
proof -
  have a: "addPending pkgs p v = pkgs(packageName p \<mapsto> \<lparr>Name = packageName p, Version = v\<rparr>)"
    using assms(3) by (simp add: addPending_def)
  have one: "parseInstalledPackages stdout =
      Inr (pkgs(packageName p \<mapsto> \<lparr>Name = packageName p, Version = v\<rparr>), None)"
    using parse_from_loop [OF assms(1,2)] a by simp
  have two: "pkgLoop (Map.empty, [], []) (ts @ [[]]) =
      Inr (pkgs(packageName p \<mapsto> \<lparr>Name = packageName p, Version = v\<rparr>), [], [])"
    using assms(2) a by (simp add: pkgLoop_append)
  have four: "pkgs = pk \<and> p = TrimSpace rhs \<and> v = []"
    if "ts = pre @ [t]" and "pkgLoop (Map.empty, [], []) pre = Inr (pk, [], [])"
      and "Cut t '':'' = (''Info.plist'', rhs, True)" for pre t rhs pk
  proof -
    have "pkgLoop (Map.empty, [], []) ts = pkgLine (pk, [], []) t"
      using that(1,2) by (simp add: pkgLoop_append split: sum.splits)
    also have "\<dots> = Inr (pk, TrimSpace rhs, [])"
      using pkgLine_tagged [OF that(3), of pk "[]" "[]"] by simp
    finally show ?thesis using assms(2) by simp
  qed
  show ?thesis using one two four parse_blank_line_appended [of stdout] by blast
qed

theorem end_of_input_finalizes_witness:
  "parseInstalledPackages ''Info.plist: /Applications/Safari.app/Contents/Info.plist'' =
     Inr ([''Safari'' \<mapsto> \<lparr>Name = ''Safari'', Version = []\<rparr>], None)"
proof -
  let ?t = "''Info.plist: /Applications/Safari.app/Contents/Info.plist''"
  let ?p = "''/Applications/Safari.app/Contents/Info.plist''"
  have s: "scanLines ?t = ([?t], None)"
    by (simp add: evaluate)
  have c: "Cut ?t '':'' = (''Info.plist'', '' /Applications/Safari.app/Contents/Info.plist'', True)"
    using Cut_first_colon [of "''Info.plist''" "'' /Applications/Safari.app/Contents/Info.plist''"]
    by simp
  have tr: "TrimSpace '' /Applications/Safari.app/Contents/Info.plist'' = ?p"
    by (simp add: evaluate)
  have l: "pkgLoop (Map.empty, [], []) [?t] = Inr (Map.empty, ?p, [])"
    using pkgLine_tagged [OF c, of Map.empty "[]" "[]"] tr by simp
  have n: "?p \<noteq> []" by simp
  have nm: "packageName ?p = ''Safari''" by (simp add: evaluate)
  show ?thesis
    using end_of_input_finalizes [OF s l n] nm by simp
qed

text \<open>
  The claim as stated, for every text that ends with a path pending, fails: below, the
  scanner delivers the \<open>Info.plist\<close> line and stops with \<open>ErrTooLong\<close> at the next line of
  more than 65536 bytes, the loop ends with the path pending, and the function returns the
  scan error and no inventory.
\<close>

theorem end_of_input_finalizes_counterexample:
  "pkgLoop (Map.empty, [], [])
     (fst (scanLines (''Info.plist: /a/X.app/Contents/Info.plist\<newline>CFBundleShortVersionString: '' @
        replicate 65536 (CHR ''x'')))) =
     Inr (Map.empty, ''/a/X.app/Contents/Info.plist'', []) \<and>
   parseInstalledPackages
     (''Info.plist: /a/X.app/Contents/Info.plist\<newline>CFBundleShortVersionString: '' @
      replicate 65536 (CHR ''x'')) = Inl (ScanFailed ErrTooLong)"
proof -
  let ?pl = "''Info.plist: /a/X.app/Contents/Info.plist''"
  let ?long = "''CFBundleShortVersionString: '' @ replicate 65536 (CHR ''x'')"
  let ?t = "''Info.plist: /a/X.app/Contents/Info.plist\<newline>CFBundleShortVersionString: '' @
      replicate 65536 (CHR ''x'')"
  have r: "rawLines ?t = [?pl, ?long]"
    by (simp add: rawLines_replicate)
  have s: "scanLines ?t = ([?pl], Some ErrTooLong)"
    unfolding scanLines_def r by (simp add: MaxScanTokenSize_def dropCR_def)
  have w: "\<forall>t\<in>set [?pl]. wellFormedLine t"
    by (simp add: evaluate_blocks evaluate)
  have l: "pkgLoop (Map.empty, [], []) [?pl] = Inr (Map.empty, ''/a/X.app/Contents/Info.plist'', [])"
    by (simp add: evaluate)
  from s w have p: "parseInstalledPackages ?t = Inl (ScanFailed ErrTooLong)"
    by (rule parse_scan_failed)
  have f: "fst (scanLines ?t) = [?pl]"
    unfolding s by simp
  show ?thesis unfolding f by (rule conjI [OF l p])
qed

text \<open>
  Claim C9. A line is split at its first colon only. For every tag without a colon and
  every value, with or without further colons, \<open>strings.Cut\<close> returns the tag and the whole
  value, and the loop body stores the trimmed value (the pending path for the tag
  \<open>Info.plist\<close>, the pending version for \<open>CFBundleShortVersionString\<close>): a colon in the
  value raises neither the line-format error nor the tag error, which depends on the tag
  alone.
\<close>

theorem pkgLine_first_colon:
  assumes "CHR '':'' \<notin> set tag"
  shows "Cut (tag @ '':'' @ val) '':'' = (tag, val, True) \<and>
         pkgLine (pkgs, p, v) (tag @ '':'' @ val) =
           (if tag = ''Info.plist'' then Inr (pkgs, TrimSpace val, v)
            else if tag = ''CFBundleShortVersionString'' then
              Inr (pkgs, p,
                if HasSuffix (TrimSpace val)
                     ''error: No value at that key path or invalid key path: CFBundleShortVersionString''
                then [] else TrimSpace val)
            else Inl (UnexpectedTag tag))"
proof -
  have c: "Cut (tag @ '':'' @ val) '':'' = (tag, val, True)"
    using assms by (rule Cut_first_colon)
  show ?thesis using c pkgLine_tagged [OF c] by simp
qed

theorem pkgLine_first_colon_witness:
  "CHR '':'' \<notin> set ''Info.plist'' \<and>
   pkgLine (Map.empty, [], ''1.0'') ''Info.plist: /Applications/a:b.app/Contents/Info.plist'' =
     Inr (Map.empty, ''/Applications/a:b.app/Contents/Info.plist'', ''1.0'') \<and>
   CHR '':'' \<notin> set ''CFBundleShortVersionString'' \<and>
   pkgLine (Map.empty, ''/a'', []) ''CFBundleShortVersionString: 1:2:3 '' =
     Inr (Map.empty, ''/a'', ''1:2:3'')"
proof -
  have n1: "CHR '':'' \<notin> set ''Info.plist''" by simp
  have n2: "CHR '':'' \<notin> set ''CFBundleShortVersionString''" by simp
  have t1: "TrimSpace '' /Applications/a:b.app/Contents/Info.plist'' =
      ''/Applications/a:b.app/Contents/Info.plist''"
    by (simp add: evaluate)
  have t2: "TrimSpace '' 1:2:3 '' = ''1:2:3''"
    by (simp add: evaluate)
  have "pkgLine (Map.empty, [], ''1.0'') ''Info.plist: /Applications/a:b.app/Contents/Info.plist'' =
      Inr (Map.empty, ''/Applications/a:b.app/Contents/Info.plist'', ''1.0'')"
    using pkgLine_first_colon [OF n1, of "'' /Applications/a:b.app/Contents/Info.plist''"
        Map.empty "[]" "''1.0''"] t1
    by simp
  moreover have "pkgLine (Map.empty, ''/a'', []) ''CFBundleShortVersionString: 1:2:3 '' =
      Inr (Map.empty, ''/a'', ''1:2:3'')"
    using pkgLine_first_colon [OF n2, of "'' 1:2:3 ''" Map.empty "''/a''" "[]"] t2
    by (simp add: HasSuffix_def)
  ultimately show ?thesis using n1 n2 by simp
qed

text \<open>
  Claim C10. For the empty text, and for a text all of whose lines are blank (empty, or a
  lone carriage return, which the scanner drops), \<open>parseInstalledPackages\<close> returns no
  error, the empty inventory (a map that was made, not \<open>nil\<close>) and the \<open>nil\<close> map of
  source packages, which has no entry.
\<close>

theorem parseInstalledPackages_blank:
  assumes "\<forall>l\<in>set (rawLines stdout). l = [] \<or> l = [CHR 0x0D]"
  shows "parseInstalledPackages stdout = Inr (Map.empty, None)"
proof -
  have each: "length l < MaxScanTokenSize \<and> dropCR l = []" if "l \<in> set (rawLines stdout)" for l
  proof -
    from that assms have "l = [] \<or> l = [CHR 0x0D]" by blast
    then show ?thesis
    proof
      assume "l = []"
      then show ?thesis by (simp add: MaxScanTokenSize_def dropCR_def)
    next
      assume "l = [CHR 0x0D]"
      then show ?thesis by (simp add: MaxScanTokenSize_def dropCR_def)
    qed
  qed
  have "\<forall>l\<in>set (rawLines stdout). length l < MaxScanTokenSize"
    using each by blast
  then have "scanLines stdout = (map dropCR (rawLines stdout), None)"
    unfolding scanLines_def by (rule scanTokens_ok)
  moreover have "\<forall>t\<in>set (map dropCR (rawLines stdout)). t = []"
    using each by simp
  then have "pkgLoop (Map.empty, [], []) (map dropCR (rawLines stdout)) = Inr (Map.empty, [], [])"
    by (rule pkgLoop_blank)
  ultimately show ?thesis
    by (simp add: parseInstalledPackages_def addPending_def)
qed

theorem parseInstalledPackages_blank_witness:
  "parseInstalledPackages [] = Inr (Map.empty, None) \<and>
   parseInstalledPackages ''\<newline>\<newline>'' = Inr (Map.empty, None) \<and>
   parseInstalledPackages [CHR 0x0D, CHR 0x0A, CHR 0x0A, CHR 0x0D] = Inr (Map.empty, None)"
proof -
  have "parseInstalledPackages [] = Inr (Map.empty, None)"
    using parseInstalledPackages_blank [of "[]"] by simp
  moreover have "parseInstalledPackages ''\<newline>\<newline>'' = Inr (Map.empty, None)"
    by (rule parseInstalledPackages_blank) simp
  moreover have
    "parseInstalledPackages [CHR 0x0D, CHR 0x0A, CHR 0x0A, CHR 0x0D] = Inr (Map.empty, None)"
    by (rule parseInstalledPackages_blank) simp
  ultimately show ?thesis by simp
qed

end
